theory Spec2Isabelle
  imports Main "HOL-Library.Word"
begin

section \<open>firestore-cli: a shallow embedding of firestore-cli.go\<close>

text \<open>
  The program is one Go file. Its collaborators (cobra, viper, the Firestore client,
  \<open>encoding/json\<close>, \<open>strconv\<close>) are libraries that are not part of the sources.
  What the store, the file system and the encoder return is an input of the model, a
  field of the environment of a run; \<open>strconv.ParseInt\<close>, viper's lookup and, for the
  one property that is about the encoder itself, the JSON encoder are modelled, each
  under a note that says so. Every call the program makes to the store is recorded in a
  log. Go's \<open>int\<close> is taken as 64 bits wide (a 64-bit target), with wrap-around
  addition and signed comparison.
\<close>

type_synonym go_int = "64 word"

subsection \<open>Errors\<close>

text \<open>
  A Go \<open>error\<close> is \<open>error option\<close>, \<open>None\<close> being \<open>nil\<close>. \<open>Errorf\<close> is an error with
  a plain message (\<open>fmt.Errorf\<close>, or an error made by a library); \<open>Wrapped msg e\<close> is
  what \<open>errors.Wrap(e, msg)\<close> builds from a non-nil \<open>e\<close>.
\<close>

datatype error = Errorf string | Wrapped string error

fun Error :: "error \<Rightarrow> string" where
  "Error (Errorf s) = s"
| "Error (Wrapped msg e) = msg @ '': '' @ Error e"

definition Wrap :: "error option \<Rightarrow> string \<Rightarrow> error option" where
  "Wrap err msg = (case err of None \<Rightarrow> None | Some e \<Rightarrow> Some (Wrapped msg e))"

subsection \<open>Process state, output and the log of store calls\<close>

datatype query_value = IntValue "64 word" | StringValue string

datatype call =
    NewClient string
  | DocGet string string
  | OpenDocuments string
  | OpenWhere string string string query_value
  | IterNext
  | IterStop

record world =
  stdout :: "string list"
  calls :: "call list"
  verbose :: bool

text \<open>
  How a function call ends: it returns a value, the process exits (\<open>os.Exit\<close>), or
  it panics.
\<close>

datatype 'a outcome = Return 'a | Exit nat | Panic string

definition Print :: "string \<Rightarrow> world \<Rightarrow> world" where
  "Print s w = w\<lparr>stdout := stdout w @ [s]\<rparr>"

definition Println :: "string \<Rightarrow> world \<Rightarrow> world" where
  "Println s w = Print (s @ [CHR 0x0A]) w"

definition record_call :: "call \<Rightarrow> world \<Rightarrow> world" where
  "record_call c w = w\<lparr>calls := calls w @ [c]\<rparr>"

subsection \<open>Number formatting (\<open>%d\<close>, \<open>%v\<close> of an integer, \<open>%t\<close>)\<close>

function utoa :: "nat \<Rightarrow> string" where
  "utoa n = (if n < 10 then [char_of (48 + n)] else utoa (n div 10) @ [char_of (48 + n mod 10)])"
  by pat_completeness auto
termination
  by (relation "measure id") auto

definition itoa :: "int \<Rightarrow> string" where
  "itoa i = (if i < 0 then CHR ''-'' # utoa (nat (- i)) else utoa (nat i))"

definition format_bool :: "bool \<Rightarrow> string" where
  "format_bool b = (if b then ''true'' else ''false'')"

fun format_value :: "query_value \<Rightarrow> string" where
  "format_value (IntValue i) = itoa (sint i)"
| "format_value (StringValue s) = s"

subsection \<open>Settings (viper)\<close>

text \<open>
  The three keys bound in \<open>init\<close>: \<open>collection\<close>, \<open>project\<close>, \<open>prettyprint\<close>. A
  source of settings (the flags given on the command line, or the configuration file)
  gives each key a value or leaves it out.
\<close>

record source =
  src_project :: "string option"
  src_collection :: "string option"
  src_prettyprint :: "bool option"

record viper =
  bound_flags :: source
  config_file :: "source option"

definition lookup_string :: "source \<Rightarrow> string \<Rightarrow> string option" where
  "lookup_string s key =
     (if key = ''project'' then src_project s
      else if key = ''collection'' then src_collection s
      else None)"

definition lookup_bool :: "source \<Rightarrow> string \<Rightarrow> bool option" where
  "lookup_bool s key = (if key = ''prettyprint'' then src_prettyprint s else None)"

text \<open>
  Modelled from the spec: viper's lookup (library code, absent from src/). Section 4.1
  gives the precedence: built-in defaults, then the config file, then the command-line
  flags. The defaults are those of the flags declared in \<open>init\<close>: the empty string and
  \<open>false\<close>.
\<close>

definition GetString :: "viper \<Rightarrow> string \<Rightarrow> string" where
  "GetString v key =
     (case lookup_string (bound_flags v) key of
        Some x \<Rightarrow> x
      | None \<Rightarrow>
          (case config_file v of
             None \<Rightarrow> []
           | Some f \<Rightarrow> (case lookup_string f key of Some x \<Rightarrow> x | None \<Rightarrow> [])))"

definition GetBool :: "viper \<Rightarrow> string \<Rightarrow> bool" where
  "GetBool v key =
     (case lookup_bool (bound_flags v) key of
        Some x \<Rightarrow> x
      | None \<Rightarrow>
          (case config_file v of
             None \<Rightarrow> False
           | Some f \<Rightarrow> (case lookup_bool f key of Some x \<Rightarrow> x | None \<Rightarrow> False)))"

subsection \<open>The environment of one run\<close>

datatype read_result = Loaded source | ConfigFileNotFoundError | ReadError error

datatype 'd next_result = Yield 'd | Fail error

text \<open>
  A document stream is the list of what successive \<open>Next\<close> calls return; past its end
  \<open>Next\<close> returns \<open>iterator.Done\<close>.

  \<open>client.Collection\<close> returns a pointer that may be nil: \<open>Client_Collection\<close> gives
  the collection reference for a path, or \<open>None\<close> for nil. Which paths the library
  refuses is left to the environment. The streams are those of a collection reference.
  \<open>DocRef_Get\<close> is what \<open>Doc(id).Get(ctx)\<close> returns on a collection reference, nil
  or not, for a document id: \<open>Doc\<close> and \<open>Get\<close> are methods on pointers, which the
  program does not dereference itself, so what they answer on nil is the library's.
\<close>

type_synonym CollectionRef = string

record 'd env =
  homedir_Dir :: "error + string"
  ReadInConfig :: "string \<Rightarrow> string list \<Rightarrow> read_result"
  emulator :: bool
  firestore_NewClient :: "string \<Rightarrow> error option"
  Client_Collection :: "string \<Rightarrow> CollectionRef option"
  DocRef_Get :: "CollectionRef option \<Rightarrow> string \<Rightarrow> error + 'd"
  Collection_Documents :: "CollectionRef \<Rightarrow> 'd next_result list"
  Query_Documents ::
    "CollectionRef \<Rightarrow> string \<Rightarrow> string \<Rightarrow> query_value \<Rightarrow> 'd next_result list"
  json_Marshal :: "'d \<Rightarrow> error + string"
  json_MarshalIndent :: "'d \<Rightarrow> string \<Rightarrow> string \<Rightarrow> error + string"

text \<open>The flags of a command as \<open>cmd.Flags().GetBool\<close> and \<open>GetInt\<close> return them.\<close>

record cmd_flags =
  flag_verbose :: "error + bool"
  flag_limit :: "error + go_int"
  flag_unlimited :: "error + bool"

datatype command = Get | Where | Documents

record invocation =
  inv_command :: command
  inv_args :: "string list"
  inv_flags :: cmd_flags
  inv_settings :: source

subsection \<open>\<open>initConfig\<close>\<close>

definition configNotFound :: string where
  "configNotFound = concat (map (\<lambda>l. l @ [CHR 0x0A])
     [''Config file not found! Consider creating one.'',
      '''',
      ''Possible locations:'',
      ''-------------------'',
      ''  ./firestore.yaml'',
      ''  ~/firestore.yaml'',
      ''  ~/.config/firestore-cli/firestore-cli.yaml'',
      '''',
      ''Example configuration:'',
      ''----------------------'',
      ''project: my-awesome-gcp-project'',
      ''collection: my_documents'',
      '''',
      ''You can also use --project and --collection switches to override these settings.''])"

definition initConfig :: "'d env \<Rightarrow> source \<Rightarrow> world \<Rightarrow> viper outcome \<times> world" where
  "initConfig e flags w =
     (case homedir_Dir e of
        Inl err \<Rightarrow> (Exit 1, Println (Error err) w)
      | Inr home \<Rightarrow>
          (case ReadInConfig e ''firestore-cli''
                  [''.'', home, home @ ''/.config/firestore-cli''] of
             ConfigFileNotFoundError \<Rightarrow>
               (Return \<lparr>bound_flags = flags, config_file = None\<rparr>, Print configNotFound w)
           | ReadError err \<Rightarrow>
               (Panic (''Fatal error config file: '' @ Error err @ '' '' @ [CHR 0x0A]), w)
           | Loaded f \<Rightarrow>
               (Return \<lparr>bound_flags = flags, config_file = Some f\<rparr>, w)))"

subsection \<open>Pre-run: validation and the client\<close>

fun validate_keys :: "viper \<Rightarrow> string list \<Rightarrow> error option" where
  "validate_keys v [] = None"
| "validate_keys v (key # keys) =
     (if GetString v key = [] then Some (Errorf (key @ '' undefined''))
      else validate_keys v keys)"

definition validateRequiredParams :: "viper \<Rightarrow> error option" where
  "validateRequiredParams v = validate_keys v [''project'', ''collection'']"

definition initFirestoreClient :: "'d env \<Rightarrow> viper \<Rightarrow> world \<Rightarrow> error option \<times> world" where
  "initFirestoreClient e v w =
     (let project = GetString v ''project'' in
      (Wrap (firestore_NewClient e project) ''unable to create firestore client'',
       record_call (NewClient project) w))"

definition preRunE :: "'d env \<Rightarrow> viper \<Rightarrow> cmd_flags \<Rightarrow> world \<Rightarrow> error option \<times> world" where
  "preRunE e v fl w =
     (case validateRequiredParams v of
        Some err \<Rightarrow> (Wrap (Some err) ''unable to validate required params'', w)
      | None \<Rightarrow>
          (case flag_verbose fl of
             Inl err \<Rightarrow> (Wrap (Some err) ''unable to get flag \"verbose\"'', w\<lparr>verbose := False\<rparr>)
           | Inr b \<Rightarrow>
               (case initFirestoreClient e v (w\<lparr>verbose := b\<rparr>) of
                  (Some err, w') \<Rightarrow> (Wrap (Some err) ''unable to create firestore client'', w')
                | (None, w') \<Rightarrow> (None, w'))))"

subsection \<open>Rendering\<close>

definition jsonString :: "'d env \<Rightarrow> viper \<Rightarrow> 'd \<Rightarrow> error + string" where
  "jsonString e v docData =
     (case (if GetBool v ''prettyprint'' then json_MarshalIndent e docData [] ''  ''
            else json_Marshal e docData) of
        Inl err \<Rightarrow> Inl (Wrapped ''unable to marshal document to json'' err)
      | Inr jsonData \<Rightarrow> Inr jsonData)"

subsection \<open>\<open>collection\<close> and \<open>get\<close>\<close>

text \<open>The collection reference of the configured path; \<open>None\<close> is the nil pointer.\<close>

definition collection :: "'d env \<Rightarrow> viper \<Rightarrow> CollectionRef option" where
  "collection e v =
     (let collectionPath = GetString v ''collection'' in Client_Collection e collectionPath)"

definition get_verbose :: "'d env \<Rightarrow> viper \<Rightarrow> string \<Rightarrow> world \<Rightarrow> world" where
  "get_verbose e v documentID w =
     (if verbose w
      then Print (''Finding (ProjectID:'' @ GetString v ''project''
                  @ '', CollectionPath:'' @ GetString v ''collection''
                  @ '', ID:'' @ documentID
                  @ '', Emulator:'' @ format_bool (emulator e) @ '')''
                  @ [CHR 0x0A]) w
      else w)"

definition get :: "'d env \<Rightarrow> viper \<Rightarrow> string list \<Rightarrow> world \<Rightarrow> error option outcome \<times> world" where
  "get e v args w =
     (case args of
        [] \<Rightarrow> (Panic ''index out of range'', w)
      | documentID # _ \<Rightarrow>
          (let w1 = get_verbose e v documentID w;
               w2 = record_call (DocGet (GetString v ''collection'') documentID) w1
           in case DocRef_Get e (collection e v) documentID of
                Inl err \<Rightarrow> (Return (Wrap (Some err) ''unable to get document''), w2)
              | Inr docData \<Rightarrow>
                  (case jsonString e v docData of
                     Inl err \<Rightarrow> (Return (Some err), w2)
                   | Inr s \<Rightarrow> (Return None, Println s w2))))"

subsection \<open>\<open>iterate\<close>, \<open>documents\<close> and \<open>where\<close>\<close>

text \<open>
  The \<open>for\<close> loop of \<open>iterate\<close>, by recursion on what the stream still holds. The
  result is the returned error, the part of the stream never fetched, and the world.
\<close>

fun iterate_loop ::
  "'d env \<Rightarrow> viper \<Rightarrow> go_int \<Rightarrow> bool \<Rightarrow> go_int \<Rightarrow> 'd next_result list \<Rightarrow> world
     \<Rightarrow> error option \<times> 'd next_result list \<times> world" where
  "iterate_loop e v limit unlimited c [] w = (None, [], record_call IterNext w)"
| "iterate_loop e v limit unlimited c (Fail err # rest) w =
     (Wrap (Some err) ''unable to iterate documents'', rest, record_call IterNext w)"
| "iterate_loop e v limit unlimited c (Yield doc # rest) w =
     (case jsonString e v doc of
        Inl err \<Rightarrow> (Some err, rest, record_call IterNext w)
      | Inr s \<Rightarrow>
          (let w' = Println s (record_call IterNext w) in
           if \<not> unlimited \<and> sint limit \<le> sint c then (None, rest, w')
           else iterate_loop e v limit unlimited (c + 1) rest w'))"

definition iterate ::
  "'d env \<Rightarrow> viper \<Rightarrow> cmd_flags \<Rightarrow> 'd next_result list \<Rightarrow> world
     \<Rightarrow> error option \<times> 'd next_result list \<times> world" where
  "iterate e v fl iter w =
     (case flag_limit fl of
        Inl err \<Rightarrow> (Wrap (Some err) ''unable to parse flag \"limit\"'', iter, w)
      | Inr limit \<Rightarrow>
          (case flag_unlimited fl of
             Inl err \<Rightarrow> (Wrap (Some err) ''unable to parse flag \"unlimited\"'', iter, w)
           | Inr unlimited \<Rightarrow> iterate_loop e v limit unlimited 1 iter w))"

text \<open>
  \<open>Documents\<close> and \<open>Where\<close> are methods of the query embedded in the collection
  reference: calling them on the nil pointer dereferences it, and the program panics
  before a stream exists.
\<close>

definition nil_dereference :: string where
  "nil_dereference = ''runtime error: invalid memory address or nil pointer dereference''"

text \<open>\<open>defer iter.Stop()\<close>: the stream is stopped when the function returns.\<close>

definition documents :: "'d env \<Rightarrow> viper \<Rightarrow> cmd_flags \<Rightarrow> world \<Rightarrow> error option outcome \<times> world" where
  "documents e v fl w =
     (case collection e v of
        None \<Rightarrow> (Panic nil_dereference, w)
      | Some coll \<Rightarrow>
          (let iter = Collection_Documents e coll;
               (err, _, w') = iterate e v fl iter (record_call (OpenDocuments coll) w)
           in (Return err, record_call IterStop w')))"

subsection \<open>\<open>strconv.ParseInt\<close>\<close>

text \<open>
  Modelled from the spec: \<open>strconv.ParseInt\<close> and \<open>strconv.ParseUint\<close> (Go standard
  library, absent from src/), for an explicit base between 2 and 36. Section 4.5 has
  the value parsed as a base-10 integer of 32-bit range; the definitions follow the
  library's algorithm: an optional sign, then digits accumulated in an unsigned 64-bit
  number, with a syntax error on the empty string or a character that is no digit of the
  base and a range error when the number leaves the bit size. The 64-bit accumulator is a
  \<open>nat\<close> with the library's two overflow tests written out.
\<close>

datatype num_error = ErrSyntax | ErrRange

definition digit_val :: "char \<Rightarrow> nat option" where
  "digit_val c =
     (let k = (of_char c :: nat) in
      if 48 \<le> k \<and> k \<le> 57 then Some (k - 48)
      else if 97 \<le> k \<and> k \<le> 122 then Some (k - 97 + 10)
      else if 65 \<le> k \<and> k \<le> 90 then Some (k - 65 + 10)
      else None)"

fun ParseUint_loop :: "nat \<Rightarrow> nat \<Rightarrow> nat \<Rightarrow> string \<Rightarrow> nat \<times> num_error option" where
  "ParseUint_loop base maxVal n [] = (n, None)"
| "ParseUint_loop base maxVal n (c # cs) =
     (case digit_val c of
        None \<Rightarrow> (0, Some ErrSyntax)
      | Some d \<Rightarrow>
          if d \<ge> base then (0, Some ErrSyntax)
          else if n \<ge> (2 ^ 64 - 1) div base + 1 then (maxVal, Some ErrRange)
          else
            (let n1 = n * base + d in
             if n1 \<ge> 2 ^ 64 \<or> n1 > maxVal then (maxVal, Some ErrRange)
             else ParseUint_loop base maxVal n1 cs))"

definition strconv_ParseUint :: "string \<Rightarrow> nat \<Rightarrow> nat \<Rightarrow> nat \<times> num_error option" where
  "strconv_ParseUint s base bitSize =
     (if s = [] then (0, Some ErrSyntax)
      else ParseUint_loop base (2 ^ bitSize - 1) 0 s)"

definition strconv_ParseInt :: "string \<Rightarrow> nat \<Rightarrow> nat \<Rightarrow> num_error + int" where
  "strconv_ParseInt s base bitSize =
     (case s of
        [] \<Rightarrow> Inl ErrSyntax
      | c # cs \<Rightarrow>
          (let neg = (c = CHR ''-'');
               s' = (if c = CHR ''+'' \<or> c = CHR ''-'' then cs else s);
               (un, err) = strconv_ParseUint s' base bitSize;
               cutoff = (2::nat) ^ (bitSize - 1)
           in if err = Some ErrSyntax then Inl ErrSyntax
              else if \<not> neg \<and> un \<ge> cutoff then Inl ErrRange
              else if neg \<and> un > cutoff then Inl ErrRange
              else Inr (if neg then - int un else int un)))"

text \<open>
  The words of the spec, to compare with: a base-10 literal is an optional sign followed
  by one or more decimal digits, and the 32-bit range is that of a signed 32-bit integer.
\<close>

definition is_decimal_digit :: "char \<Rightarrow> bool" where
  "is_decimal_digit c = (c \<in> set ''0123456789'')"

definition decimal_value :: "string \<Rightarrow> nat" where
  "decimal_value ds = foldl (\<lambda>n c. 10 * n + (of_char c - 48)) 0 ds"

definition base10_integer :: "string \<Rightarrow> int option" where
  "base10_integer s =
     (let neg = (s \<noteq> [] \<and> hd s = CHR ''-'');
          ds = (if s \<noteq> [] \<and> (hd s = CHR ''-'' \<or> hd s = CHR ''+'') then tl s else s)
      in if ds \<noteq> [] \<and> list_all is_decimal_digit ds
         then Some (if neg then - int (decimal_value ds) else int (decimal_value ds))
         else None)"

definition in_int32_range :: "int \<Rightarrow> bool" where
  "in_int32_range i = (- (2 ^ 31) \<le> i \<and> i < 2 ^ 31)"

subsection \<open>\<open>where\<close>\<close>

definition where_value :: "string \<Rightarrow> query_value" where
  "where_value arg =
     (case strconv_ParseInt arg 10 32 of
        Inr intValue \<Rightarrow> IntValue (word_of_int intValue)
      | Inl err \<Rightarrow> StringValue arg)"

definition where_verbose ::
  "viper \<Rightarrow> cmd_flags \<Rightarrow> string \<Rightarrow> string \<Rightarrow> query_value \<Rightarrow> world \<Rightarrow> world" where
  "where_verbose v fl path op val w =
     (case flag_verbose fl of
        Inr True \<Rightarrow>
          Print (''Querying (project:'' @ GetString v ''project''
                 @ '', collection:'' @ GetString v ''collection''
                 @ '', query:'' @ path @ '' '' @ op @ '' '' @ format_value val
                 @ '')'' @ [CHR 0x0A]) w
      | _ \<Rightarrow> w)"

definition where_cmd ::
  "'d env \<Rightarrow> viper \<Rightarrow> cmd_flags \<Rightarrow> string list \<Rightarrow> world \<Rightarrow> error option outcome \<times> world" where
  "where_cmd e v fl args w =
     (case args of
        path # op # lit # _ \<Rightarrow>
          (let val = where_value lit;
               w1 = where_verbose v fl path op val w
           in case collection e v of
                None \<Rightarrow> (Panic nil_dereference, w1)
              | Some coll \<Rightarrow>
                  (let iter = Query_Documents e coll path op val;
                       (err, _, w') =
                         iterate e v fl iter (record_call (OpenWhere coll path op val) w1)
                   in (Return err, record_call IterStop w')))
      | _ \<Rightarrow> (Panic ''index out of range'', w))"

subsection \<open>The commands under cobra, and \<open>main\<close>\<close>

definition ExactArgs :: "nat \<Rightarrow> string list \<Rightarrow> error option" where
  "ExactArgs n args =
     (if length args \<noteq> n
      then Some (Errorf (''accepts '' @ utoa n @ '' arg(s), received '' @ utoa (length args)))
      else None)"

fun command_Args :: "command \<Rightarrow> string list \<Rightarrow> error option" where
  "command_Args Get args = ExactArgs 1 args"
| "command_Args Where args = ExactArgs 3 args"
| "command_Args Documents args = None"

fun RunE ::
  "command \<Rightarrow> 'd env \<Rightarrow> viper \<Rightarrow> cmd_flags \<Rightarrow> string list \<Rightarrow> world
     \<Rightarrow> error option outcome \<times> world" where
  "RunE Get e v fl args w = get e v args w"
| "RunE Where e v fl args w = where_cmd e v fl args w"
| "RunE Documents e v fl args w = documents e v fl w"

text \<open>
  \<open>rootCmd.Execute()\<close> for one of the three commands: cobra runs the initialiser
  registered with \<open>OnInitialize\<close>, checks the positional arguments against the command's
  \<open>Args\<close>, runs \<open>PreRunE\<close> and, when that returns no error, \<open>RunE\<close>. The first error
  is what \<open>Execute\<close> returns. What cobra itself writes about an error goes to the
  standard error stream, which is not part of the state.
\<close>

definition Execute :: "'d env \<Rightarrow> invocation \<Rightarrow> world \<Rightarrow> error option outcome \<times> world" where
  "Execute e call w =
     (case initConfig e (inv_settings call) w of
        (Exit n, w1) \<Rightarrow> (Exit n, w1)
      | (Panic m, w1) \<Rightarrow> (Panic m, w1)
      | (Return v, w1) \<Rightarrow>
          (case command_Args (inv_command call) (inv_args call) of
             Some err \<Rightarrow> (Return (Some err), w1)
           | None \<Rightarrow>
               (case preRunE e v (inv_flags call) w1 of
                  (Some err, w2) \<Rightarrow> (Return (Some err), w2)
                | (None, w2) \<Rightarrow> RunE (inv_command call) e v (inv_flags call) (inv_args call) w2)))"

text \<open>
  \<open>main\<close>: the result is how the process ends. Returning from \<open>main\<close> is exit status 0,
  a panic is exit status 2.
\<close>

definition main :: "'d env \<Rightarrow> invocation \<Rightarrow> world \<Rightarrow> unit outcome \<times> world" where
  "main e call w =
     (case Execute e call w of
        (Return None, w') \<Rightarrow> (Return (), w')
      | (Return (Some err), w') \<Rightarrow> (Exit 1, Println (Error err) w')
      | (Exit n, w') \<Rightarrow> (Exit n, w')
      | (Panic m, w') \<Rightarrow> (Panic m, w'))"

fun exit_code :: "unit outcome \<Rightarrow> nat" where
  "exit_code (Return _) = 0"
| "exit_code (Exit n) = n"
| "exit_code (Panic _) = 2"

definition start :: world where
  "start = \<lparr>stdout = [], calls = [], verbose = False\<rparr>"

subsection \<open>JSON text\<close>

text \<open>
  Modelled from the spec: the JSON encoder (\<open>json.Marshal\<close> and \<open>json.MarshalIndent\<close>
  of Go's standard library, absent from src/) and a reader of JSON text. Section 3 has a
  document as a map from field names to dynamically typed values, and section 4.6 has the
  renderer produce a JSON string, compact or indented by steps of two spaces, and fail on
  a value the encoder cannot represent. The values are null, booleans, integers, strings,
  arrays and objects, and \<open>JUnsupported\<close> for what the encoder refuses; a field map is
  the list of its fields in the order the encoder writes them. The two encoders differ
  in their layout only: what they write after an opening bracket, after a comma, before a
  closing bracket and after a colon.
\<close>

datatype json =
    JNull
  | JBool bool
  | JInt int
  | JString string
  | JArray "json list"
  | JObject "(string \<times> json) list"
  | JUnsupported

fun supported :: "json \<Rightarrow> bool" where
  "supported JUnsupported = False"
| "supported (JArray xs) = list_all supported xs"
| "supported (JObject kvs) = list_all (\<lambda>kv. supported (snd kv)) kvs"
| "supported _ = True"

text \<open>
  A string is written between quotes, with a backslash before a quote or a backslash in
  it, and with newline, carriage return and tab written as \<open>n\<close>, \<open>r\<close> and \<open>t\<close>
  after a backslash.
\<close>

definition escape_char :: "char \<Rightarrow> string" where
  "escape_char c =
     (if c = CHR 0x22 then [CHR 0x5C, CHR 0x22]
      else if c = CHR 0x5C then [CHR 0x5C, CHR 0x5C]
      else if c = CHR 0x0A then [CHR 0x5C, CHR ''n'']
      else if c = CHR 0x0D then [CHR 0x5C, CHR ''r'']
      else if c = CHR 0x09 then [CHR 0x5C, CHR ''t'']
      else [c])"

definition quote :: "string \<Rightarrow> string" where
  "quote s = [CHR 0x22] @ concat (map escape_char s) @ [CHR 0x22]"

fun separated :: "'a list \<Rightarrow> 'a list list \<Rightarrow> 'a list" where
  "separated sep [] = []"
| "separated sep [x] = x"
| "separated sep (x # y # ys) = x @ sep @ separated sep (y # ys)"

record layout =
  after_open :: "nat \<Rightarrow> string"
  after_comma :: "nat \<Rightarrow> string"
  before_close :: "nat \<Rightarrow> string"
  after_colon :: string

fun render :: "layout \<Rightarrow> nat \<Rightarrow> json \<Rightarrow> string" where
  "render L n JNull = ''null''"
| "render L n (JBool b) = (if b then ''true'' else ''false'')"
| "render L n (JInt i) = itoa i"
| "render L n (JString s) = quote s"
| "render L n (JArray xs) =
     (if xs = [] then ''[]''
      else ''['' @ after_open L (Suc n)
           @ separated ('','' @ after_comma L (Suc n)) (map (render L (Suc n)) xs)
           @ before_close L n @ '']'')"
| "render L n (JObject kvs) =
     (if kvs = [] then ''{}''
      else ''{'' @ after_open L (Suc n)
           @ separated ('','' @ after_comma L (Suc n))
               (map (\<lambda>kv. quote (fst kv) @ '':'' @ after_colon L @ render L (Suc n) (snd kv)) kvs)
           @ before_close L n @ ''}'')"
| "render L n JUnsupported = []"

definition compact_layout :: layout where
  "compact_layout =
     \<lparr>after_open = (\<lambda>n. []), after_comma = (\<lambda>n. []), before_close = (\<lambda>n. []),
      after_colon = []\<rparr>"

definition newline_indent :: "string \<Rightarrow> string \<Rightarrow> nat \<Rightarrow> string" where
  "newline_indent prefix indent n = CHR 0x0A # prefix @ concat (replicate n indent)"

definition indent_layout :: "string \<Rightarrow> string \<Rightarrow> layout" where
  "indent_layout prefix indent =
     \<lparr>after_open = newline_indent prefix indent,
      after_comma = newline_indent prefix indent,
      before_close = newline_indent prefix indent,
      after_colon = '' ''\<rparr>"

definition Marshal :: "(string \<times> json) list \<Rightarrow> error + string" where
  "Marshal d =
     (if supported (JObject d) then Inr (render compact_layout 0 (JObject d))
      else Inl (Errorf ''json: unsupported value''))"

definition MarshalIndent :: "(string \<times> json) list \<Rightarrow> string \<Rightarrow> string \<Rightarrow> error + string" where
  "MarshalIndent d prefix indent =
     (if supported (JObject d) then Inr (render (indent_layout prefix indent) 0 (JObject d))
      else Inl (Errorf ''json: unsupported value''))"

text \<open>
  The reader works in two passes. The lexer goes over the text one character at a time
  and drops the spaces between tokens; a string runs from a quote to the next quote that
  no backslash escapes, and a word (a number or one of \<open>null\<close>, \<open>true\<close>,
  \<open>false\<close>) runs up to a space or a punctuation mark.
\<close>

datatype token =
    LBrace | RBrace | LBrack | RBrack | Colon | Comma
  | TNull | TBool bool | TInt int | TString string

definition is_space :: "char \<Rightarrow> bool" where
  "is_space c = (c = CHR '' '' \<or> c = CHR 0x0A \<or> c = CHR 0x0D \<or> c = CHR 0x09)"

definition punctuation :: "char \<Rightarrow> token option" where
  "punctuation c =
     (if c = CHR ''{'' then Some LBrace
      else if c = CHR ''}'' then Some RBrace
      else if c = CHR ''['' then Some LBrack
      else if c = CHR '']'' then Some RBrack
      else if c = CHR '':'' then Some Colon
      else if c = CHR '','' then Some Comma
      else None)"

definition unescape_char :: "char \<Rightarrow> char option" where
  "unescape_char c =
     (if c = CHR 0x22 then Some (CHR 0x22)
      else if c = CHR 0x5C then Some (CHR 0x5C)
      else if c = CHR ''n'' then Some (CHR 0x0A)
      else if c = CHR ''r'' then Some (CHR 0x0D)
      else if c = CHR ''t'' then Some (CHR 0x09)
      else None)"

definition json_int :: "string \<Rightarrow> int option" where
  "json_int w =
     (case w of
        [] \<Rightarrow> None
      | c # cs \<Rightarrow>
          if c = CHR ''-'' then
            (if cs \<noteq> [] \<and> list_all is_decimal_digit cs then Some (- int (decimal_value cs))
             else None)
          else if list_all is_decimal_digit w then Some (int (decimal_value w))
          else None)"

definition bare_token :: "string \<Rightarrow> token option" where
  "bare_token w =
     (case json_int w of
        Some i \<Rightarrow> Some (TInt i)
      | None \<Rightarrow>
          if w = ''null'' then Some TNull
          else if w = ''true'' then Some (TBool True)
          else if w = ''false'' then Some (TBool False)
          else None)"

datatype lex_mode = Outside | Bare string | InString string | InEscape string

definition emit :: "token option \<Rightarrow> token list option \<Rightarrow> token list option" where
  "emit t ts =
     (case t of None \<Rightarrow> None
      | Some x \<Rightarrow> (case ts of None \<Rightarrow> None | Some xs \<Rightarrow> Some (x # xs)))"

fun lexm :: "lex_mode \<Rightarrow> string \<Rightarrow> token list option" where
  "lexm Outside [] = Some []"
| "lexm (Bare w) [] = emit (bare_token w) (Some [])"
| "lexm (InString s) [] = None"
| "lexm (InEscape s) [] = None"
| "lexm Outside (c # cs) =
     (if is_space c then lexm Outside cs
      else if c = CHR 0x22 then lexm (InString []) cs
      else (case punctuation c of
              Some t \<Rightarrow> emit (Some t) (lexm Outside cs)
            | None \<Rightarrow> lexm (Bare [c]) cs))"
| "lexm (Bare w) (c # cs) =
     (if is_space c then emit (bare_token w) (lexm Outside cs)
      else if c = CHR 0x22 then None
      else (case punctuation c of
              Some t \<Rightarrow> emit (bare_token w) (emit (Some t) (lexm Outside cs))
            | None \<Rightarrow> lexm (Bare (w @ [c])) cs))"
| "lexm (InString s) (c # cs) =
     (if c = CHR 0x22 then emit (Some (TString s)) (lexm Outside cs)
      else if c = CHR 0x5C then lexm (InEscape s) cs
      else lexm (InString (s @ [c])) cs)"
| "lexm (InEscape s) (c # cs) =
     (case unescape_char c of
        Some x \<Rightarrow> lexm (InString (s @ [x])) cs
      | None \<Rightarrow> None)"

text \<open>
  The second pass goes over the tokens with a stack of the arrays and objects that are
  open. A frame says what has been read of its array or object and so what may come
  next: an item or the closing bracket after the opening one, a comma or the closing
  bracket after an item, an item after a comma; in an object an item is a key, a colon
  and a value.
\<close>

datatype frame =
    ArrOpen
  | ArrVal "json list"
  | ArrSep "json list"
  | ObjOpen
  | ObjKey "(string \<times> json) list" string
  | ObjColon "(string \<times> json) list" string
  | ObjVal "(string \<times> json) list"
  | ObjSep "(string \<times> json) list"

datatype pstate = Reading "frame list" | Complete json

fun push :: "json \<Rightarrow> frame list \<Rightarrow> pstate option" where
  "push v [] = Some (Complete v)"
| "push v (ArrOpen # st) = Some (Reading (ArrVal [v] # st))"
| "push v (ArrSep acc # st) = Some (Reading (ArrVal (acc @ [v]) # st))"
| "push v (ObjColon acc k # st) = Some (Reading (ObjVal (acc @ [(k, v)]) # st))"
| "push v (_ # st) = None"

fun expects_value :: "frame list \<Rightarrow> bool" where
  "expects_value [] = True"
| "expects_value (ArrOpen # st) = True"
| "expects_value (ArrSep acc # st) = True"
| "expects_value (ObjColon acc k # st) = True"
| "expects_value (_ # st) = False"

fun step :: "pstate \<Rightarrow> token \<Rightarrow> pstate option" where
  "step (Complete v) t = None"
| "step (Reading st) TNull = push JNull st"
| "step (Reading st) (TBool b) = push (JBool b) st"
| "step (Reading st) (TInt i) = push (JInt i) st"
| "step (Reading st) (TString s) =
     (case st of
        ObjOpen # st' \<Rightarrow> Some (Reading (ObjKey [] s # st'))
      | ObjSep acc # st' \<Rightarrow> Some (Reading (ObjKey acc s # st'))
      | _ \<Rightarrow> push (JString s) st)"
| "step (Reading st) LBrack = (if expects_value st then Some (Reading (ArrOpen # st)) else None)"
| "step (Reading st) LBrace = (if expects_value st then Some (Reading (ObjOpen # st)) else None)"
| "step (Reading st) RBrack =
     (case st of
        ArrOpen # st' \<Rightarrow> push (JArray []) st'
      | ArrVal acc # st' \<Rightarrow> push (JArray acc) st'
      | _ \<Rightarrow> None)"
| "step (Reading st) RBrace =
     (case st of
        ObjOpen # st' \<Rightarrow> push (JObject []) st'
      | ObjVal acc # st' \<Rightarrow> push (JObject acc) st'
      | _ \<Rightarrow> None)"
| "step (Reading st) Comma =
     (case st of
        ArrVal acc # st' \<Rightarrow> Some (Reading (ArrSep acc # st'))
      | ObjVal acc # st' \<Rightarrow> Some (Reading (ObjSep acc # st'))
      | _ \<Rightarrow> None)"
| "step (Reading st) Colon =
     (case st of
        ObjKey acc k # st' \<Rightarrow> Some (Reading (ObjColon acc k # st'))
      | _ \<Rightarrow> None)"

fun run :: "pstate \<Rightarrow> token list \<Rightarrow> pstate option" where
  "run s [] = Some s"
| "run s (t # ts) = (case step s t of None \<Rightarrow> None | Some s' \<Rightarrow> run s' ts)"

definition parse_tokens :: "token list \<Rightarrow> json option" where
  "parse_tokens ts =
     (case run (Reading []) ts of
        Some (Complete v) \<Rightarrow> Some v
      | _ \<Rightarrow> None)"

definition parse_json :: "string \<Rightarrow> json option" where
  "parse_json s = (case lexm Outside s of None \<Rightarrow> None | Some ts \<Rightarrow> parse_tokens ts)"

text \<open>The tokens of a value, the same in every layout.\<close>

fun tokens :: "json \<Rightarrow> token list" where
  "tokens JNull = [TNull]"
| "tokens (JBool b) = [TBool b]"
| "tokens (JInt i) = [TInt i]"
| "tokens (JString s) = [TString s]"
| "tokens (JArray xs) = LBrack # separated [Comma] (map tokens xs) @ [RBrack]"
| "tokens (JObject kvs) =
     LBrace # separated [Comma] (map (\<lambda>kv. TString (fst kv) # Colon # tokens (snd kv)) kvs)
       @ [RBrace]"
| "tokens JUnsupported = []"

text \<open>
  A word character is neither space, quote nor punctuation; a text is delimited when it
  is empty or starts with a space or a punctuation mark, so that a word before it ends.
\<close>

definition word_char :: "char \<Rightarrow> bool" where
  "word_char c = (\<not> is_space c \<and> c \<noteq> CHR 0x22 \<and> punctuation c = None)"

definition delimited :: "string \<Rightarrow> bool" where
  "delimited rest = (case rest of [] \<Rightarrow> True | c # cs \<Rightarrow> is_space c \<or> punctuation c \<noteq> None)"

text \<open>A layout that writes nothing but spaces.\<close>

definition space_layout :: "layout \<Rightarrow> bool" where
  "space_layout L =
     ((\<forall>n. list_all is_space (after_open L n)) \<and> (\<forall>n. list_all is_space (after_comma L n))
      \<and> (\<forall>n. list_all is_space (before_close L n)) \<and> list_all is_space (after_colon L))"

text \<open>Putting tokens before what the lexer makes of the rest.\<close>

definition prepend :: "token list \<Rightarrow> token list option \<Rightarrow> token list option" where
  "prepend ts r = (case r of None \<Rightarrow> None | Some xs \<Rightarrow> Some (ts @ xs))"

subsection \<open>Notions used to state the properties\<close>

text \<open>What \<open>fmt.Println\<close> writes for each of a list of strings.\<close>

definition lines :: "string list \<Rightarrow> string list" where
  "lines ss = map (\<lambda>s. s @ [CHR 0x0A]) ss"

text \<open>The required key that \<open>validateRequiredParams\<close> meets first without a value.\<close>

definition missing_key :: "viper \<Rightarrow> string" where
  "missing_key v = (if GetString v ''project'' = [] then ''project'' else ''collection'')"

text \<open>
  The messages with which the program wraps an error, one for each step that can fail,
  and the errors that carry one of them outermost.
\<close>

definition step_messages :: "string list" where
  "step_messages =
     [''unable to validate required params'',
      ''unable to get flag \"verbose\"'',
      ''unable to create firestore client'',
      ''unable to get document'',
      ''unable to parse flag \"limit\"'',
      ''unable to parse flag \"unlimited\"'',
      ''unable to iterate documents'',
      ''unable to marshal document to json'']"

fun has_context :: "error \<Rightarrow> bool" where
  "has_context (Wrapped msg e) = (msg \<in> set step_messages)"
| "has_context (Errorf s) = False"

text \<open>
  The stream a command opens: none for \<open>get\<close>, and none when there is no collection
  reference.
\<close>

definition opened_stream :: "'d env \<Rightarrow> viper \<Rightarrow> command \<Rightarrow> string list \<Rightarrow> 'd next_result list" where
  "opened_stream e v cmd args =
     (case collection e v of
        None \<Rightarrow> []
      | Some coll \<Rightarrow>
          (case cmd of
             Get \<Rightarrow> []
           | Documents \<Rightarrow> Collection_Documents e coll
           | Where \<Rightarrow>
               (case args of
                  path # op # lit # _ \<Rightarrow> Query_Documents e coll path op (where_value lit)
                | _ \<Rightarrow> [])))"

text \<open>
  A fetch succeeded when it returned a document and the document serialized. The steps
  of a command succeeded when, for \<open>get\<close>, the document was found and serialized, and
  for the two other commands, the client had a collection for the path, the flags were
  read and each of the \<open>k\<close> calls to \<open>Next\<close> succeeded or, as the last of them, met
  the end of the stream.
\<close>

definition step_ok :: "'d env \<Rightarrow> viper \<Rightarrow> 'd next_result \<Rightarrow> bool" where
  "step_ok e v x =
     (case x of
        Yield d \<Rightarrow> (case jsonString e v d of Inr s \<Rightarrow> True | Inl err \<Rightarrow> False)
      | Fail err \<Rightarrow> False)"

definition command_steps_ok ::
  "'d env \<Rightarrow> viper \<Rightarrow> command \<Rightarrow> string list \<Rightarrow> cmd_flags \<Rightarrow> nat \<Rightarrow> bool" where
  "command_steps_ok e v cmd args fl k =
     (case cmd of
        Get \<Rightarrow>
          (case args of
             [] \<Rightarrow> False
           | documentID # _ \<Rightarrow>
               (case DocRef_Get e (collection e v) documentID of
                  Inl err \<Rightarrow> False
                | Inr d \<Rightarrow> step_ok e v (Yield d)))
      | _ \<Rightarrow>
          collection e v \<noteq> None
          \<and> \<not> isl (flag_limit fl) \<and> \<not> isl (flag_unlimited fl)
          \<and> k \<le> Suc (length (opened_stream e v cmd args))
          \<and> list_all (step_ok e v) (take k (opened_stream e v cmd args)))"

definition all_steps_ok :: "'d env \<Rightarrow> viper \<Rightarrow> invocation \<Rightarrow> nat \<Rightarrow> bool" where
  "all_steps_ok e v call k =
     (validateRequiredParams v = None
      \<and> \<not> isl (flag_verbose (inv_flags call))
      \<and> firestore_NewClient e (GetString v ''project'') = None
      \<and> command_steps_ok e v (inv_command call) (inv_args call) (inv_flags call) k)"

text \<open>
  The error of a failing step, under the context message of that step: the steps of the
  pre-run, those of \<open>get\<close>, and those of an iteration over the stream the command opens.
\<close>

inductive step_failure ::
  "'d env \<Rightarrow> viper \<Rightarrow> command \<Rightarrow> string list \<Rightarrow> cmd_flags \<Rightarrow> error \<Rightarrow> bool"
  for e :: "'d env" and v :: viper and cmd :: command and args :: "string list"
    and fl :: cmd_flags
where
  validation:
    "validateRequiredParams v = Some x \<Longrightarrow>
     step_failure e v cmd args fl (Wrapped ''unable to validate required params'' x)"
| verbose_flag:
    "flag_verbose fl = Inl x \<Longrightarrow>
     step_failure e v cmd args fl (Wrapped ''unable to get flag \"verbose\"'' x)"
| client:
    "firestore_NewClient e (GetString v ''project'') = Some x \<Longrightarrow>
     step_failure e v cmd args fl
       (Wrapped ''unable to create firestore client''
          (Wrapped ''unable to create firestore client'' x))"
| get_document:
    "cmd = Get \<Longrightarrow> args = documentID # others \<Longrightarrow>
     DocRef_Get e (collection e v) documentID = Inl x \<Longrightarrow>
     step_failure e v cmd args fl (Wrapped ''unable to get document'' x)"
| get_marshal:
    "cmd = Get \<Longrightarrow> args = documentID # others \<Longrightarrow>
     DocRef_Get e (collection e v) documentID = Inr d \<Longrightarrow>
     (if GetBool v ''prettyprint'' then json_MarshalIndent e d [] ''  ''
      else json_Marshal e d) = Inl x \<Longrightarrow>
     step_failure e v cmd args fl (Wrapped ''unable to marshal document to json'' x)"
| limit_flag:
    "cmd \<noteq> Get \<Longrightarrow> flag_limit fl = Inl x \<Longrightarrow>
     step_failure e v cmd args fl (Wrapped ''unable to parse flag \"limit\"'' x)"
| unlimited_flag:
    "cmd \<noteq> Get \<Longrightarrow> flag_unlimited fl = Inl x \<Longrightarrow>
     step_failure e v cmd args fl (Wrapped ''unable to parse flag \"unlimited\"'' x)"
| fetch:
    "Fail x \<in> set (opened_stream e v cmd args) \<Longrightarrow>
     step_failure e v cmd args fl (Wrapped ''unable to iterate documents'' x)"
| marshal:
    "Yield d \<in> set (opened_stream e v cmd args) \<Longrightarrow>
     (if GetBool v ''prettyprint'' then json_MarshalIndent e d [] ''  ''
      else json_Marshal e d) = Inl x \<Longrightarrow>
     step_failure e v cmd args fl (Wrapped ''unable to marshal document to json'' x)"

subsection \<open>A sample store, for concrete runs\<close>

text \<open>
  Documents are named by strings. The sample encoder refuses the document \<open>bad\<close> and
  writes any other between braces, on one line or on three. The sample client has no
  collection for the path \<open>users/alice\<close>, which names a document.
\<close>

definition sample_file :: source where
  "sample_file = \<lparr>src_project = Some ''demo-project'', src_collection = Some ''users'',
                   src_prettyprint = None\<rparr>"

definition no_flags :: source where
  "no_flags = \<lparr>src_project = None, src_collection = None, src_prettyprint = None\<rparr>"

definition sample_viper :: viper where
  "sample_viper = \<lparr>bound_flags = no_flags, config_file = Some sample_file\<rparr>"

definition sample_env :: "string env" where
  "sample_env =
     \<lparr>homedir_Dir = Inr ''/home/user'',
      ReadInConfig = (\<lambda>name paths. Loaded sample_file),
      emulator = False,
      firestore_NewClient = (\<lambda>project. None),
      Client_Collection = (\<lambda>path. if path = ''users/alice'' then None else Some path),
      DocRef_Get =
        (\<lambda>coll id. if coll = None then Inl (Errorf ''firestore: nil DocumentRef'')
                    else if id = ''alice'' then Inr ''alice'' else Inl (Errorf ''not found'')),
      Collection_Documents = (\<lambda>coll. [Yield ''alice'', Yield ''bob'', Yield ''carol'']),
      Query_Documents = (\<lambda>coll field op val. [Yield ''bob'', Yield ''carol'']),
      json_Marshal =
        (\<lambda>d. if d = ''bad'' then Inl (Errorf ''json: unsupported value'')
             else Inr (''{'' @ d @ ''}'')),
      json_MarshalIndent =
        (\<lambda>d prefix indent. if d = ''bad'' then Inl (Errorf ''json: unsupported value'')
             else Inr (''{'' @ [CHR 0x0A] @ prefix @ indent @ d @ [CHR 0x0A] @ prefix @ ''}''))\<rparr>"

definition sample_flags :: "go_int \<Rightarrow> bool \<Rightarrow> cmd_flags" where
  "sample_flags limit unlimited =
     \<lparr>flag_verbose = Inr False, flag_limit = Inr limit, flag_unlimited = Inr unlimited\<rparr>"

text \<open>A store of JSON documents with the modelled encoders, and the pretty-print flag set.\<close>

definition sample_document :: "(string \<times> json) list" where
  "sample_document =
     [(''name'', JString ''Ada''), (''age'', JInt 30),
      (''tags'', JArray [JString ''x'', JNull, JArray []]),
      (''address'', JObject [(''city'', JString ''Oslo''), (''verified'', JBool True)])]"

definition json_env :: "(string \<times> json) list env" where
  "json_env =
     \<lparr>homedir_Dir = Inr ''/home/user'',
      ReadInConfig = (\<lambda>name paths. Loaded sample_file),
      emulator = False,
      firestore_NewClient = (\<lambda>project. None),
      Client_Collection = (\<lambda>path. Some path),
      DocRef_Get = (\<lambda>coll id. Inr sample_document),
      Collection_Documents = (\<lambda>coll. [Yield sample_document]),
      Query_Documents = (\<lambda>coll field op val. [Yield sample_document]),
      json_Marshal = Marshal,
      json_MarshalIndent = MarshalIndent\<rparr>"

definition pretty_viper :: viper where
  "pretty_viper =
     \<lparr>bound_flags = no_flags\<lparr>src_prettyprint := Some True\<rparr>, config_file = Some sample_file\<rparr>"

section \<open>The iteration loop\<close>

lemmas world_defs = Println_def Print_def record_call_def

lemmas sample_defs =
  sample_flags_def sample_env_def sample_viper_def sample_file_def no_flags_def
  GetString_def GetBool_def lookup_string_def lookup_bool_def jsonString_def lines_def
  start_def collection_def

lemma sint_succ:
  fixes c l :: go_int
  assumes "sint c < sint l"
  shows "sint (c + 1) = sint c + 1"
proof -
  have "sint l < 2 ^ 63" using sint_lt [of l] by simp
  moreover have "- (2 ^ 63) \<le> sint c" using sint_ge [of c] by simp
  ultimately have "- (2 ^ 63) \<le> sint c + 1" and "sint c + 1 < 2 ^ 63"
    using assms by auto
  then show ?thesis
    by (simp add: sint_word_ariths signed_take_bit_int_eq_self)
qed

text \<open>
  As long as documents serialize and the bound is not reached, the loop prints each
  document, counts it, and goes on with the rest of the stream.
\<close>

lemma loop_prefix:
  assumes "map (jsonString e v) ds = map Inr ss"
    and "unlimited \<or> sint c + int (length ds) \<le> sint limit"
  shows "iterate_loop e v limit unlimited c (map Yield ds @ rest) w =
         iterate_loop e v limit unlimited (c + of_nat (length ds)) rest
           (w\<lparr>stdout := stdout w @ lines ss,
              calls := calls w @ replicate (length ds) IterNext\<rparr>)"
  using assms
proof (induction ds arbitrary: ss c w)
  case Nil
  then show ?case by (simp add: lines_def)
next
  case (Cons d ds)
  from Cons.prems(1) obtain s ss' where ss: "ss = s # ss'" and s: "jsonString e v d = Inr s"
    and ss': "map (jsonString e v) ds = map Inr ss'"
    by (cases ss) auto
  let ?w1 = "Println s (record_call IterNext w)"
  have nobreak: "\<not> (\<not> unlimited \<and> sint limit \<le> sint c)"
    using Cons.prems(2) by auto
  have next_ok: "unlimited \<or> sint (c + 1) + int (length ds) \<le> sint limit"
  proof (cases unlimited)
    case True
    then show ?thesis by simp
  next
    case False
    with Cons.prems(2) have "sint c < sint limit" by auto
    then have "sint (c + 1) = sint c + 1" by (rule sint_succ)
    with Cons.prems(2) False show ?thesis by auto
  qed
  have "iterate_loop e v limit unlimited c (map Yield (d # ds) @ rest) w =
        iterate_loop e v limit unlimited (c + 1) (map Yield ds @ rest) ?w1"
    using s nobreak by (auto simp: Let_def)
  also have "\<dots> = iterate_loop e v limit unlimited (c + 1 + of_nat (length ds)) rest
          (?w1\<lparr>stdout := stdout ?w1 @ lines ss',
              calls := calls ?w1 @ replicate (length ds) IterNext\<rparr>)"
    by (rule Cons.IH [OF ss' next_ok])
  also have "\<dots> = iterate_loop e v limit unlimited (c + of_nat (length (d # ds))) rest
           (w\<lparr>stdout := stdout w @ lines ss,
              calls := calls w @ replicate (length (d # ds)) IterNext\<rparr>)"
    by (simp add: ss lines_def Println_def Print_def record_call_def ac_simps)
  finally show ?case .
qed

text \<open>
  With the unlimited flag unset, a run of documents that serialize and whose last one
  brings the counter to the limit is printed whole, and the loop stops there.
\<close>

lemma loop_limit:
  assumes "map (jsonString e v) ds = map Inr ss"
    and "ds \<noteq> []"
    and "sint c + int (length ds) = sint limit + 1"
  shows "iterate_loop e v limit False c (map Yield ds @ rest) w =
           (None, rest, w\<lparr>stdout := stdout w @ lines ss,
                          calls := calls w @ replicate (length ds) IterNext\<rparr>)"
  using assms
proof (induction ds arbitrary: ss c w)
  case Nil
  then show ?case by simp
next
  case (Cons d ds)
  from Cons.prems(1) obtain s ss' where ss: "ss = s # ss'" and s: "jsonString e v d = Inr s"
    and ss': "map (jsonString e v) ds = map Inr ss'"
    by (cases ss) auto
  show ?case
  proof (cases "ds = []")
    case True
    with Cons.prems(3) have "sint limit \<le> sint c" by simp
    with True s ss ss' show ?thesis
      by (simp add: lines_def Println_def Print_def record_call_def)
  next
    case False
    with Cons.prems(3) have lt: "sint c < sint limit" by (cases ds) auto
    then have suc: "sint (c + 1) = sint c + 1" by (rule sint_succ)
    with Cons.prems(3) have len: "sint (c + 1) + int (length ds) = sint limit + 1" by simp
    let ?w1 = "Println s (record_call IterNext w)"
    have "iterate_loop e v limit False c (map Yield (d # ds) @ rest) w =
          iterate_loop e v limit False (c + 1) (map Yield ds @ rest) ?w1"
      using s lt by (auto simp: Let_def)
    also have "\<dots> = (None, rest, ?w1\<lparr>stdout := stdout ?w1 @ lines ss',
                          calls := calls ?w1 @ replicate (length ds) IterNext\<rparr>)"
      by (rule Cons.IH [OF ss' False len])
    also have "\<dots> = (None, rest, w\<lparr>stdout := stdout w @ lines ss,
                          calls := calls w @ replicate (length (d # ds)) IterNext\<rparr>)"
      by (simp add: ss lines_def Println_def Print_def record_call_def)
    finally show ?thesis .
  qed
qed

text \<open>The loop calls \<open>Next\<close> at least once, and makes no other call to the store.\<close>

lemma loop_calls:
  "\<exists>k. calls (snd (snd (iterate_loop e v limit unlimited c iter w))) =
         calls w @ replicate (Suc k) IterNext"
proof (induction iter arbitrary: c w)
  case Nil
  show ?case by (rule exI [of _ 0]) (simp add: record_call_def)
next
  case (Cons x iter)
  show ?case
  proof (cases x)
    case (Fail err)
    then show ?thesis by (intro exI [of _ 0]) (simp add: record_call_def)
  next
    case (Yield doc)
    show ?thesis
    proof (cases "jsonString e v doc")
      case (Inl err)
      with Yield show ?thesis by (intro exI [of _ 0]) (simp add: record_call_def)
    next
      case (Inr s)
      let ?w1 = "Println s (record_call IterNext w)"
      show ?thesis
      proof (cases "\<not> unlimited \<and> sint limit \<le> sint c")
        case True
        with Yield Inr show ?thesis
          by (intro exI [of _ 0]) (simp add: record_call_def Println_def Print_def)
      next
        case False
        from Cons.IH [of "c + 1" ?w1] obtain k where
          "calls (snd (snd (iterate_loop e v limit unlimited (c + 1) iter ?w1))) =
             calls ?w1 @ replicate (Suc k) IterNext" ..
        with Yield Inr False show ?thesis
          by (intro exI [of _ "Suc k"])
             (auto simp: record_call_def Println_def Print_def Let_def replicate_append_same)
      qed
    qed
  qed
qed


section \<open>Properties of the iteration\<close>

text \<open>
  C1, as stated, fails: the loop also ends at a document that does not serialize. With
  limit 2 on a collection of three documents whose second one the encoder refuses, one
  document is rendered, not two, and the operation returns the encoder's error.
\<close>

theorem documents_limit_counterexample:
  "documents
     (sample_env\<lparr>Collection_Documents := (\<lambda>coll. [Yield ''alice'', Yield ''bad'', Yield ''carol''])\<rparr>)
     sample_viper (sample_flags 2 False) start =
     (Return (Some (Wrapped ''unable to marshal document to json'' (Errorf ''json: unsupported value''))),
      \<lparr>stdout = [''{alice}'' @ [CHR 0x0A]],
       calls = [OpenDocuments ''users'', IterNext, IterNext, IterStop],
       verbose = False\<rparr>)"
  by (simp add: documents_def iterate_def sample_defs world_defs)

text \<open>
  C1, amended. Let the collection path name a collection, let the limit \<open>N\<close> be positive
  and the unlimited flag unset, and let the first \<open>N\<close> fetches return documents that
  serialize. Then the list-all operation renders exactly \<open>N\<close> documents, the first \<open>N\<close>
  of the stream in its order: it fetches \<open>N\<close> times, prints each document fetched, and
  stops when the counter, started at 1, reaches the limit. What the stream holds after
  these \<open>N\<close> documents is never fetched.
\<close>

theorem documents_limit_exact:
  assumes "flag_limit fl = Inr limit" and "flag_unlimited fl = Inr False"
    and "0 < sint limit"
    and "collection e v = Some coll"
    and "Collection_Documents e coll = map Yield ds @ rest"
    and "length ds = nat (sint limit)"
    and "map (jsonString e v) ds = map Inr ss"
  shows "documents e v fl w =
           (Return None,
            w\<lparr>stdout := stdout w @ lines ss,
               calls := calls w @ OpenDocuments coll
                          # replicate (nat (sint limit)) IterNext @ [IterStop]\<rparr>)
         \<and> length ss = nat (sint limit)"
proof -
  let ?n = "nat (sint limit)"
  let ?w0 = "record_call (OpenDocuments coll) w"
  have ne: "ds \<noteq> []" using assms(3,6) by auto
  have bound: "sint (1 :: go_int) + int (length ds) = sint limit + 1"
    using assms(3,6) by simp
  have "iterate_loop e v limit False 1 (map Yield ds @ rest) ?w0 =
          (None, rest,
           ?w0\<lparr>stdout := stdout ?w0 @ lines ss,
                calls := calls ?w0 @ replicate (length ds) IterNext\<rparr>)"
    by (rule loop_limit [OF assms(7) ne bound])
  then have "documents e v fl w =
           (Return None,
            w\<lparr>stdout := stdout w @ lines ss,
               calls := calls w @ OpenDocuments coll
                          # replicate ?n IterNext @ [IterStop]\<rparr>)"
    using assms(1,2,4,5,6)
    by (simp add: documents_def iterate_def record_call_def)
  moreover have "length ss = ?n"
    using arg_cong [OF assms(7), of length] assms(6) by simp
  ultimately show ?thesis by simp
qed

text \<open>With limit 2 on the sample collection of three documents, two lines are printed.\<close>

theorem documents_limit_exact_witness:
  "documents sample_env sample_viper (sample_flags 2 False) start =
     (Return None,
      \<lparr>stdout = [''{alice}'' @ [CHR 0x0A], ''{bob}'' @ [CHR 0x0A]],
       calls = [OpenDocuments ''users'', IterNext, IterNext, IterStop],
       verbose = False\<rparr>)"
proof -
  have 1: "flag_limit (sample_flags 2 False) = Inr 2"
    and 2: "flag_unlimited (sample_flags 2 False) = Inr False"
    by (simp_all add: sample_defs)
  have 3: "0 < sint (2 :: go_int)"
    by simp
  have 4: "collection sample_env sample_viper = Some ''users''"
    by (simp add: sample_defs)
  have 5: "Collection_Documents sample_env ''users''
             = map Yield [''alice'', ''bob''] @ [Yield ''carol'']"
    by (simp add: sample_defs)
  have 6: "length [''alice'', ''bob''] = nat (sint (2 :: go_int))"
    by simp
  have 7: "map (jsonString sample_env sample_viper) [''alice'', ''bob'']
           = map Inr [''{alice}'', ''{bob}'']"
    by (simp add: sample_defs)
  from documents_limit_exact [OF 1 2 3 4 5 6 7, of start] show ?thesis
    by (simp add: sample_defs numeral_2_eq_2)
qed

text \<open>
  C2, as stated, fails: with the unlimited flag set, a run on a collection of three
  documents whose second one the encoder refuses renders one document, prints the error
  and exits with status 1.
\<close>

theorem documents_unlimited_counterexample:
  "main
     (sample_env\<lparr>Collection_Documents := (\<lambda>coll. [Yield ''alice'', Yield ''bad'', Yield ''carol''])\<rparr>)
     \<lparr>inv_command = Documents, inv_args = [], inv_flags = sample_flags 1 True,
      inv_settings = no_flags\<rparr> start =
     (Exit 1,
      \<lparr>stdout = [''{alice}'' @ [CHR 0x0A],
                 ''unable to marshal document to json: json: unsupported value'' @ [CHR 0x0A]],
       calls = [NewClient ''demo-project'', OpenDocuments ''users'', IterNext, IterNext, IterStop],
       verbose = False\<rparr>)"
  by (simp add: main_def Execute_def initConfig_def
      preRunE_def validateRequiredParams_def initFirestoreClient_def Wrap_def
      documents_def iterate_def sample_defs world_defs)

text \<open>
  C2, amended. Take a run of the list-all command with the unlimited flag set in which
  the configuration loads, the project and the collection are set, the flags can be read,
  the client is constructed, the collection path names a collection, every fetch returns
  a document until the stream ends, and every document serializes. Then the run renders
  every document of the collection, in the order of the stream, and ends with exit
  status 0; on an empty collection nothing is printed and the status is 0 as well.
\<close>

theorem documents_unlimited_all:
  assumes "inv_command call = Documents"
    and "initConfig e (inv_settings call) w = (Return v, w0)"
    and "validateRequiredParams v = None"
    and "flag_verbose (inv_flags call) = Inr vb"
    and "firestore_NewClient e (GetString v ''project'') = None"
    and "flag_limit (inv_flags call) = Inr limit"
    and "flag_unlimited (inv_flags call) = Inr True"
    and "collection e v = Some coll"
    and "Collection_Documents e coll = map Yield docs"
    and "map (jsonString e v) docs = map Inr ss"
  shows "main e call w =
           (Return (),
            w0\<lparr>stdout := stdout w0 @ lines ss,
                calls := calls w0 @ NewClient (GetString v ''project'')
                           # OpenDocuments coll
                           # replicate (Suc (length docs)) IterNext @ [IterStop],
                verbose := vb\<rparr>)
         \<and> exit_code (fst (main e call w)) = 0
         \<and> length ss = length docs"
proof -
  let ?w1 = "record_call (OpenDocuments coll)
               (record_call (NewClient (GetString v ''project'')) (w0\<lparr>verbose := vb\<rparr>))"
  have "iterate_loop e v limit True 1 (map Yield docs @ []) ?w1 =
        iterate_loop e v limit True (1 + of_nat (length docs)) []
          (?w1\<lparr>stdout := stdout ?w1 @ lines ss,
               calls := calls ?w1 @ replicate (length docs) IterNext\<rparr>)"
    by (rule loop_prefix [OF assms(10)]) simp
  then have loop: "iterate_loop e v limit True 1 (map Yield docs) ?w1 =
      (None, [], w0\<lparr>stdout := stdout w0 @ lines ss,
                calls := calls w0 @ NewClient (GetString v ''project'')
                           # OpenDocuments coll
                           # replicate (Suc (length docs)) IterNext,
                verbose := vb\<rparr>)"
    by (simp add: record_call_def replicate_append_same)
  have pre: "preRunE e v (inv_flags call) w0 =
               (None, record_call (NewClient (GetString v ''project'')) (w0\<lparr>verbose := vb\<rparr>))"
    using assms(3,4,5) by (simp add: preRunE_def initFirestoreClient_def Wrap_def)
  have run: "documents e v (inv_flags call)
               (record_call (NewClient (GetString v ''project'')) (w0\<lparr>verbose := vb\<rparr>)) =
             (Return None,
              w0\<lparr>stdout := stdout w0 @ lines ss,
                calls := calls w0 @ NewClient (GetString v ''project'')
                           # OpenDocuments coll
                           # replicate (Suc (length docs)) IterNext @ [IterStop],
                verbose := vb\<rparr>)"
    using assms(6,7,8,9) loop by (simp add: documents_def iterate_def record_call_def)
  have "main e call w =
           (Return (),
            w0\<lparr>stdout := stdout w0 @ lines ss,
                calls := calls w0 @ NewClient (GetString v ''project'')
                           # OpenDocuments coll
                           # replicate (Suc (length docs)) IterNext @ [IterStop],
                verbose := vb\<rparr>)"
    using assms(1,2) pre run by (simp add: main_def Execute_def)
  moreover have "length ss = length docs"
    using arg_cong [OF assms(10), of length] by simp
  ultimately show ?thesis by simp
qed

text \<open>The sample collection, and the same store with an empty collection.\<close>

theorem documents_unlimited_all_witness:
  "main sample_env
     \<lparr>inv_command = Documents, inv_args = [], inv_flags = sample_flags 1 True,
      inv_settings = no_flags\<rparr> start =
     (Return (),
      \<lparr>stdout = [''{alice}'' @ [CHR 0x0A], ''{bob}'' @ [CHR 0x0A], ''{carol}'' @ [CHR 0x0A]],
       calls = [NewClient ''demo-project'', OpenDocuments ''users'',
                IterNext, IterNext, IterNext, IterNext, IterStop],
       verbose = False\<rparr>)
   \<and> main (sample_env\<lparr>Collection_Documents := (\<lambda>coll. [])\<rparr>)
     \<lparr>inv_command = Documents, inv_args = [], inv_flags = sample_flags 1 True,
      inv_settings = no_flags\<rparr> start =
     (Return (),
      \<lparr>stdout = [],
       calls = [NewClient ''demo-project'', OpenDocuments ''users'', IterNext, IterStop],
       verbose = False\<rparr>)"
proof -
  let ?call = "\<lparr>inv_command = Documents, inv_args = [], inv_flags = sample_flags 1 True,
      inv_settings = no_flags\<rparr>"
  have a: "initConfig sample_env (inv_settings ?call) start = (Return sample_viper, start)"
    by (simp add: initConfig_def sample_defs)
  have b: "initConfig (sample_env\<lparr>Collection_Documents := (\<lambda>coll. [])\<rparr>) (inv_settings ?call) start
             = (Return sample_viper, start)"
    by (simp add: initConfig_def sample_defs)
  have c: "validateRequiredParams sample_viper = None"
    by (simp add: validateRequiredParams_def sample_defs)
  show ?thesis
    using documents_unlimited_all [of ?call sample_env start sample_viper start False 1
        "''users''" "[''alice'', ''bob'', ''carol'']" "[''{alice}'', ''{bob}'', ''{carol}'']", OF _ a c]
      documents_unlimited_all [of ?call "sample_env\<lparr>Collection_Documents := (\<lambda>coll. [])\<rparr>"
        start sample_viper start False 1 "''users''" "[]" "[]", OF _ b c]
    by (simp add: sample_defs numeral_3_eq_3)
qed

text \<open>
  A document that does not serialize ends the loop with the error of \<open>jsonString\<close>;
  the rest of the stream is not fetched.
\<close>

lemma loop_serialization_failure:
  assumes "map (jsonString e v) ds = map Inr ss"
    and "jsonString e v d = Inl err"
    and "ds = [] \<or> unlimited \<or> int (length ds) < sint limit"
  shows "iterate_loop e v limit unlimited 1 (map Yield ds @ Yield d # rest) w =
           (Some err, rest,
            w\<lparr>stdout := stdout w @ lines ss,
               calls := calls w @ replicate (Suc (length ds)) IterNext\<rparr>)"
proof (cases "ds = []")
  case True
  with assms(1,2) show ?thesis by (simp add: lines_def record_call_def)
next
  case False
  with assms(3) have "unlimited \<or> sint (1 :: go_int) + int (length ds) \<le> sint limit"
    by auto
  from loop_prefix [OF assms(1) this, of "Yield d # rest" w] assms(2)
  show ?thesis by (simp add: record_call_def replicate_append_same)
qed

text \<open>
  C6. When the \<open>k\<close>-th document of a list-all or filter-by-field iteration does not
  serialize, the operation returns the serialization error; the \<open>k - 1\<close> documents
  before it have been printed and stay printed, \<open>Next\<close> has been called \<open>k\<close> times and
  the rest of the stream is never fetched. The bound is taken not to have ended the
  iteration before the \<open>k\<close>-th document: \<open>k\<close> is 1, or the unlimited flag is set, or
  \<open>k - 1\<close> is below the limit. An iteration is that of the stream of a collection
  reference; \<open>iterate\<close> itself is covered for every stream.
\<close>

theorem serialization_failure_aborts:
  assumes "flag_limit fl = Inr limit" and "flag_unlimited fl = Inr unlimited"
    and "map (jsonString e v) ds = map Inr ss"
    and "jsonString e v d = Inl err"
    and "ds = [] \<or> unlimited \<or> int (length ds) < sint limit"
  shows "iterate e v fl (map Yield ds @ Yield d # rest) w =
           (Some err, rest,
            w\<lparr>stdout := stdout w @ lines ss,
               calls := calls w @ replicate (Suc (length ds)) IterNext\<rparr>)
       \<and> (collection e v = Some coll
            \<and> Collection_Documents e coll = map Yield ds @ Yield d # rest
            \<longrightarrow> documents e v fl w =
                  (Return (Some err),
                   w\<lparr>stdout := stdout w @ lines ss,
                      calls := calls w @ OpenDocuments coll
                                 # replicate (Suc (length ds)) IterNext @ [IterStop]\<rparr>))
       \<and> (collection e v = Some coll
            \<and> Query_Documents e coll path op (where_value lit) = map Yield ds @ Yield d # rest
            \<longrightarrow> where_cmd e v fl [path, op, lit] w =
                  (Return (Some err),
                   (where_verbose v fl path op (where_value lit) w)
                    \<lparr>stdout := stdout (where_verbose v fl path op (where_value lit) w) @ lines ss,
                     calls := calls w @ OpenWhere coll path op (where_value lit)
                                 # replicate (Suc (length ds)) IterNext @ [IterStop]\<rparr>))"
proof -
  have it: "iterate e v fl (map Yield ds @ Yield d # rest) w' =
           (Some err, rest,
            w'\<lparr>stdout := stdout w' @ lines ss,
               calls := calls w' @ replicate (Suc (length ds)) IterNext\<rparr>)" for w'
    using assms(1,2) loop_serialization_failure [OF assms(3,4,5)]
    by (simp add: iterate_def)
  have vcalls: "calls (where_verbose v fl path op (where_value lit) w) = calls w"
    by (simp add: where_verbose_def Print_def split: sum.splits bool.splits)
  show ?thesis
    using it vcalls by (auto simp: documents_def where_cmd_def record_call_def Let_def)
qed

text \<open>The second of three documents does not serialize; the first stays printed.\<close>

theorem serialization_failure_aborts_witness:
  "documents (sample_env\<lparr>Collection_Documents := (\<lambda>coll. [Yield ''alice'', Yield ''bad'', Yield ''carol''])\<rparr>)
     sample_viper (sample_flags 100 False) start =
     (Return (Some (Wrapped ''unable to marshal document to json'' (Errorf ''json: unsupported value''))),
      \<lparr>stdout = [''{alice}'' @ [CHR 0x0A]],
       calls = [OpenDocuments ''users'', IterNext, IterNext, IterStop],
       verbose = False\<rparr>)"
proof -
  let ?e = "sample_env\<lparr>Collection_Documents := (\<lambda>coll. [Yield ''alice'', Yield ''bad'', Yield ''carol''])\<rparr>"
  let ?fl = "sample_flags 100 False"
  have 1: "flag_limit ?fl = Inr 100" and 2: "flag_unlimited ?fl = Inr False"
    by (simp_all add: sample_defs)
  have 3: "map (jsonString ?e sample_viper) [''alice''] = map Inr [''{alice}'']"
    by (simp add: sample_defs)
  have 4: "jsonString ?e sample_viper ''bad'' =
             Inl (Wrapped ''unable to marshal document to json'' (Errorf ''json: unsupported value''))"
    by (simp add: sample_defs)
  have 5: "[''alice''] = [] \<or> False \<or> int (length [''alice'']) < sint (100 :: go_int)"
    by simp
  show ?thesis
    using serialization_failure_aborts [OF 1 2 3 4 5, where rest = "[Yield ''carol'']"
        and w = start and coll = "''users''"]
    by (simp add: sample_defs)
qed

text \<open>
  C8. The stream opened by the list-all or the filter-by-field operation is stopped
  exactly once, whatever happens in between: after the call that opens it the
  operation makes some calls to \<open>Next\<close> and then, as its last call, one call to \<open>Stop\<close>.
  This holds for every stream, every setting of the flags and every encoder, so for
  exhaustion, a failure in mid-stream and a break at the bound alike. A stream is
  opened on a collection reference; where the client has none for the path, the
  operation ends before it opens a stream and makes no call at all, so there is nothing
  to stop.
\<close>

theorem stream_stopped_exactly_once:
  "(collection e v = Some coll \<longrightarrow>
      (\<exists>k. calls (snd (documents e v fl w)) =
             calls w @ OpenDocuments coll # replicate k IterNext @ [IterStop])
    \<and> (\<exists>k. calls (snd (where_cmd e v fl [path, op, lit] w)) =
             calls w @ OpenWhere coll path op (where_value lit)
               # replicate k IterNext @ [IterStop]))
   \<and> (collection e v = None \<longrightarrow>
        calls (snd (documents e v fl w)) = calls w
      \<and> calls (snd (where_cmd e v fl [path, op, lit] w)) = calls w)"
proof -
  have it: "\<exists>k. calls (snd (snd (iterate e v fl iter w'))) = calls w' @ replicate k IterNext"
    for iter w'
  proof (cases "flag_limit fl")
    case (Inl err)
    then show ?thesis by (intro exI [of _ 0]) (simp add: iterate_def)
  next
    case limit: (Inr limit)
    show ?thesis
    proof (cases "flag_unlimited fl")
      case (Inl err)
      with limit show ?thesis by (intro exI [of _ 0]) (simp add: iterate_def)
    next
      case (Inr unlimited)
      from loop_calls [of e v limit unlimited 1 iter w'] obtain k where
        "calls (snd (snd (iterate_loop e v limit unlimited 1 iter w'))) =
           calls w' @ replicate (Suc k) IterNext" ..
      with limit Inr show ?thesis
        by (intro exI [of _ "Suc k"]) (simp add: iterate_def)
    qed
  qed
  have vcalls: "calls (where_verbose v fl path op (where_value lit) w) = calls w"
    by (simp add: where_verbose_def Print_def split: sum.splits bool.splits)
  have some: "(\<exists>k. calls (snd (documents e v fl w)) =
             calls w @ OpenDocuments coll # replicate k IterNext @ [IterStop])
    \<and> (\<exists>k. calls (snd (where_cmd e v fl [path, op, lit] w)) =
             calls w @ OpenWhere coll path op (where_value lit)
               # replicate k IterNext @ [IterStop])"
    if coll: "collection e v = Some coll"
  proof -
    let ?wd = "record_call (OpenDocuments coll) w"
    let ?ww = "record_call (OpenWhere coll path op (where_value lit))
                 (where_verbose v fl path op (where_value lit) w)"
    from it [of "Collection_Documents e coll" ?wd]
    obtain k where "calls (snd (snd (iterate e v fl (Collection_Documents e coll) ?wd))) =
        calls ?wd @ replicate k IterNext" ..
    then have d: "calls (snd (documents e v fl w)) =
            calls w @ OpenDocuments coll # replicate k IterNext @ [IterStop]"
      using coll by (simp add: documents_def record_call_def Let_def split_beta)
    from it [of "Query_Documents e coll path op (where_value lit)" ?ww]
    obtain j where "calls (snd (snd (iterate e v fl
        (Query_Documents e coll path op (where_value lit)) ?ww))) =
        calls ?ww @ replicate j IterNext" ..
    then have "calls (snd (where_cmd e v fl [path, op, lit] w)) =
            calls w @ OpenWhere coll path op (where_value lit)
              # replicate j IterNext @ [IterStop]"
      using vcalls coll by (simp add: where_cmd_def record_call_def Let_def split_beta)
    with d show ?thesis by blast
  qed
  have none: "calls (snd (documents e v fl w)) = calls w
      \<and> calls (snd (where_cmd e v fl [path, op, lit] w)) = calls w"
    if "collection e v = None"
    using that vcalls by (simp add: documents_def where_cmd_def Let_def)
  from some none show ?thesis by blast
qed

text \<open>
  The three ways out on the sample collection: the bound (limit 2), a document that does
  not serialize, and exhaustion; and a path that names no collection.
\<close>

theorem stream_stopped_exactly_once_witness:
  "count_list (calls (snd (documents sample_env sample_viper (sample_flags 2 False) start))) IterStop = 1
   \<and> count_list (calls (snd (documents
         (sample_env\<lparr>Collection_Documents := (\<lambda>coll. [Yield ''alice'', Yield ''bad''])\<rparr>)
         sample_viper (sample_flags 2 False) start))) IterStop = 1
   \<and> count_list (calls (snd (where_cmd sample_env sample_viper (sample_flags 2 True)
         [''age'', ''=='', ''30''] start))) IterStop = 1
   \<and> calls (snd (documents (sample_env\<lparr>Client_Collection := (\<lambda>path. None)\<rparr>) sample_viper
         (sample_flags 2 False) start)) = []"
proof -
  have count: "count_list (calls start @ c # replicate k IterNext @ [IterStop]) IterStop = 1"
    if "c \<noteq> IterStop" for c k
    using that by (induction k) (auto simp: start_def)
  let ?bad = "sample_env\<lparr>Collection_Documents := (\<lambda>coll. [Yield ''alice'', Yield ''bad''])\<rparr>"
  let ?nil = "sample_env\<lparr>Client_Collection := (\<lambda>path. None)\<rparr>"
  have coll: "collection sample_env sample_viper = Some ''users''"
    and coll_bad: "collection ?bad sample_viper = Some ''users''"
    and coll_nil: "collection ?nil sample_viper = None"
    by (simp_all add: sample_defs)
  from stream_stopped_exactly_once [of sample_env sample_viper "''users''"
      "sample_flags 2 False" start] coll
  obtain k where "calls (snd (documents sample_env sample_viper (sample_flags 2 False) start)) =
      calls start @ OpenDocuments ''users'' # replicate k IterNext @ [IterStop]"
    by blast
  then have 1: "count_list (calls (snd (documents sample_env sample_viper
      (sample_flags 2 False) start))) IterStop = 1"
    by (simp only: count call.distinct simp_thms)
  from stream_stopped_exactly_once [of ?bad sample_viper "''users''"
      "sample_flags 2 False" start] coll_bad
  obtain k where "calls (snd (documents ?bad sample_viper (sample_flags 2 False) start)) =
      calls start @ OpenDocuments ''users'' # replicate k IterNext @ [IterStop]"
    by blast
  then have 2: "count_list (calls (snd (documents ?bad sample_viper
      (sample_flags 2 False) start))) IterStop = 1"
    by (simp only: count call.distinct simp_thms)
  from stream_stopped_exactly_once [of sample_env sample_viper "''users''"
      "sample_flags 2 True" start "''age''" "''==''" "''30''"] coll
  obtain k where "calls (snd (where_cmd sample_env sample_viper (sample_flags 2 True)
         [''age'', ''=='', ''30''] start)) =
      calls start @ OpenWhere ''users'' ''age'' ''=='' (where_value ''30'')
        # replicate k IterNext @ [IterStop]"
    by blast
  then have 3: "count_list (calls (snd (where_cmd sample_env sample_viper (sample_flags 2 True)
         [''age'', ''=='', ''30''] start))) IterStop = 1"
    by (simp only: count call.distinct simp_thms)
  from stream_stopped_exactly_once [of ?nil sample_viper "''users''"
      "sample_flags 2 False" start] coll_nil
  have 4: "calls (snd (documents ?nil sample_viper (sample_flags 2 False) start)) = []"
    by (simp add: start_def)
  from 1 2 3 4 show ?thesis by simp
qed

text \<open>
  C10, as stated, fails: the first document of a non-empty collection is rendered only
  if it serializes. With limit 0 on a collection whose first document the encoder
  refuses, the list-all and the filter-by-field operations render nothing and return
  the encoder's error.
\<close>

theorem nonpositive_limit_counterexample:
  "documents
     (sample_env\<lparr>Collection_Documents := (\<lambda>coll. [Yield ''bad'', Yield ''carol''])\<rparr>)
     sample_viper (sample_flags 0 False) start =
     (Return (Some (Wrapped ''unable to marshal document to json'' (Errorf ''json: unsupported value''))),
      \<lparr>stdout = [],
       calls = [OpenDocuments ''users'', IterNext, IterStop],
       verbose = False\<rparr>)
   \<and> where_cmd
     (sample_env\<lparr>Query_Documents := (\<lambda>coll field op val. [Yield ''bad'', Yield ''carol''])\<rparr>)
     sample_viper (sample_flags 0 False) [''name'', ''=='', ''x''] start =
     (Return (Some (Wrapped ''unable to marshal document to json'' (Errorf ''json: unsupported value''))),
      \<lparr>stdout = [],
       calls = [OpenWhere ''users'' ''name'' ''=='' (StringValue ''x''), IterNext, IterStop],
       verbose = False\<rparr>)"
  by (simp add: documents_def where_cmd_def where_verbose_def where_value_def
      strconv_ParseInt_def strconv_ParseUint_def digit_val_def
      iterate_def sample_defs world_defs)

text \<open>
  C10, amended. Let the collection path name a collection, the unlimited flag be unset
  and the limit be zero or negative, and let the first fetch return a document that
  serializes. Then the list-all and the filter-by-field operations render exactly that
  one document: the bound is tested only after the document has been printed, and the
  rest of the stream is never fetched.
\<close>

theorem nonpositive_limit_renders_one:
  assumes "flag_limit fl = Inr limit" and "flag_unlimited fl = Inr False"
    and "sint limit \<le> 0"
    and "collection e v = Some coll"
    and "jsonString e v d = Inr s"
  shows "(Collection_Documents e coll = Yield d # rest
            \<longrightarrow> documents e v fl w =
                  (Return None,
                   w\<lparr>stdout := stdout w @ lines [s],
                      calls := calls w @ [OpenDocuments coll, IterNext, IterStop]\<rparr>))
       \<and> (Query_Documents e coll path op (where_value lit) = Yield d # rest
            \<longrightarrow> where_cmd e v fl [path, op, lit] w =
                  (Return None,
                   (where_verbose v fl path op (where_value lit) w)
                    \<lparr>stdout := stdout (where_verbose v fl path op (where_value lit) w) @ lines [s],
                     calls := calls w @ [OpenWhere coll path op (where_value lit),
                                         IterNext, IterStop]\<rparr>))"
proof -
  have it: "iterate e v fl (Yield d # rest) w' =
           (None, rest, w'\<lparr>stdout := stdout w' @ lines [s], calls := calls w' @ [IterNext]\<rparr>)"
    for w'
    using assms(1,2,3,5) by (simp add: iterate_def lines_def world_defs)
  have vcalls: "calls (where_verbose v fl path op (where_value lit) w) = calls w"
    by (simp add: where_verbose_def Print_def split: sum.splits bool.splits)
  show ?thesis
    using it vcalls assms(4)
    by (auto simp: documents_def where_cmd_def record_call_def Let_def)
qed

text \<open>Limit 0 and limit -5 on the sample store: one line each.\<close>

theorem nonpositive_limit_renders_one_witness:
  "documents sample_env sample_viper (sample_flags 0 False) start =
     (Return None,
      \<lparr>stdout = [''{alice}'' @ [CHR 0x0A]],
       calls = [OpenDocuments ''users'', IterNext, IterStop],
       verbose = False\<rparr>)
   \<and> where_cmd sample_env sample_viper (sample_flags (- 5) False) [''age'', ''<'', ''30''] start =
     (Return None,
      \<lparr>stdout = [''{bob}'' @ [CHR 0x0A]],
       calls = [OpenWhere ''users'' ''age'' ''<'' (IntValue 30), IterNext, IterStop],
       verbose = False\<rparr>)"
proof -
  have a: "flag_limit (sample_flags 0 False) = Inr 0"
    and b: "flag_unlimited (sample_flags 0 False) = Inr False"
    and a': "flag_limit (sample_flags (- 5) False) = Inr (- 5)"
    and b': "flag_unlimited (sample_flags (- 5) False) = Inr False"
    by (simp_all add: sample_defs)
  have c: "sint (0 :: go_int) \<le> 0" and c': "sint (- 5 :: go_int) \<le> 0"
    by simp_all
  have coll: "collection sample_env sample_viper = Some ''users''"
    by (simp add: sample_defs)
  have d: "jsonString sample_env sample_viper ''alice'' = Inr ''{alice}''"
    and d': "jsonString sample_env sample_viper ''bob'' = Inr ''{bob}''"
    by (simp_all add: sample_defs)
  have v: "where_value ''30'' = IntValue 30"
    by (simp add: where_value_def strconv_ParseInt_def strconv_ParseUint_def digit_val_def)
  have 1: "documents sample_env sample_viper (sample_flags 0 False) start =
     (Return None,
      \<lparr>stdout = [''{alice}'' @ [CHR 0x0A]],
       calls = [OpenDocuments ''users'', IterNext, IterStop],
       verbose = False\<rparr>)"
    using nonpositive_limit_renders_one [OF a b c coll d, where rest = "[Yield ''bob'', Yield ''carol'']" and w = start]
    by (simp add: sample_defs)
  have 2: "where_cmd sample_env sample_viper (sample_flags (- 5) False) [''age'', ''<'', ''30''] start =
     (Return None,
      \<lparr>stdout = [''{bob}'' @ [CHR 0x0A]],
       calls = [OpenWhere ''users'' ''age'' ''<'' (IntValue 30), IterNext, IterStop],
       verbose = False\<rparr>)"
    using nonpositive_limit_renders_one [OF a' b' c' coll d', where path = "''age''" and op = "''<''" and lit = "''30''"
        and rest = "[Yield ''carol'']" and w = start]
      v
    by (simp add: sample_defs where_verbose_def)
  from 1 2 show ?thesis by simp
qed

section \<open>Parsing the literal of a query\<close>

lemma is_decimal_digit_code:
  "is_decimal_digit c \<longleftrightarrow> 48 \<le> (of_char c :: nat) \<and> (of_char c :: nat) \<le> 57"
proof
  assume "is_decimal_digit c"
  then show "48 \<le> (of_char c :: nat) \<and> (of_char c :: nat) \<le> 57"
    by (auto simp: is_decimal_digit_def)
next
  assume a: "48 \<le> (of_char c :: nat) \<and> (of_char c :: nat) \<le> 57"
  then have "(of_char c :: nat) \<in> {48, 49, 50, 51, 52, 53, 54, 55, 56, 57}"
    by simp arith
  then have "char_of (of_char c :: nat) \<in> char_of ` {48 :: nat, 49, 50, 51, 52, 53, 54, 55, 56, 57}"
    by (rule imageI)
  moreover have "char_of ` {48 :: nat, 49, 50, 51, 52, 53, 54, 55, 56, 57} = set ''0123456789''"
    by (simp add: char_of_def bit_0)
  ultimately show "is_decimal_digit c"
    by (simp add: is_decimal_digit_def del: insert_iff)
qed

lemma digit_val_decimal:
  "is_decimal_digit c \<Longrightarrow> digit_val c = Some (of_char c - 48) \<and> (of_char c :: nat) - 48 < 10"
  by (auto simp: is_decimal_digit_code digit_val_def Let_def)

lemma digit_val_other:
  "\<not> is_decimal_digit c \<Longrightarrow> digit_val c = None \<or> (\<exists>d. digit_val c = Some d \<and> 10 \<le> d)"
  by (auto simp: is_decimal_digit_code digit_val_def Let_def)

text \<open>The number a digit string stands for, continuing from \<open>n\<close>.\<close>

lemma foldl_decimal_ge:
  "n \<le> foldl (\<lambda>n c. 10 * n + (of_char c - 48)) (n :: nat) cs"
proof (induction cs arbitrary: n)
  case Nil
  show ?case by simp
next
  case (Cons c cs)
  have "n \<le> 10 * n + (of_char c - 48)" by simp
  also have "\<dots> \<le> foldl (\<lambda>n c. 10 * n + (of_char c - 48)) (10 * n + (of_char c - 48)) cs"
    by (rule Cons.IH)
  finally show ?case by simp
qed

lemma ParseUint_loop_digits:
  assumes "list_all is_decimal_digit cs" and "n \<le> 2 ^ 32 - 1"
  shows "ParseUint_loop 10 (2 ^ 32 - 1) n cs =
           (let m = foldl (\<lambda>n c. 10 * n + (of_char c - 48)) n cs in
            if m \<le> 2 ^ 32 - 1 then (m, None) else (2 ^ 32 - 1, Some ErrRange))"
  using assms
proof (induction cs arbitrary: n)
  case Nil
  then show ?case by simp
next
  case (Cons c cs)
  let ?d = "(of_char c :: nat) - 48"
  let ?n1 = "n * 10 + ?d"
  from Cons.prems(1) have c: "digit_val c = Some ?d" and d: "?d < 10" and cs: "list_all is_decimal_digit cs"
    using digit_val_decimal [of c] by simp_all
  from Cons.prems(2) have small: "\<not> n \<ge> (2 ^ 64 - 1) div 10 + 1" and n1: "\<not> ?n1 \<ge> 2 ^ 64"
    using d by simp_all
  show ?case
  proof (cases "?n1 > 2 ^ 32 - 1")
    case True
    have "?n1 \<le> foldl (\<lambda>n c. 10 * n + (of_char c - 48)) ?n1 cs"
      by (rule foldl_decimal_ge)
    with True have "\<not> foldl (\<lambda>n c. 10 * n + (of_char c - 48)) ?n1 cs \<le> 2 ^ 32 - 1"
      by linarith
    with True c d small n1 show ?thesis
      by (simp add: Let_def mult.commute)
  next
    case False
    then have "?n1 \<le> 2 ^ 32 - 1" by simp
    from Cons.IH [OF cs this] False c d small n1 show ?thesis
      by (simp add: Let_def mult.commute)
  qed
qed

lemma ParseUint_loop_other:
  assumes "\<not> list_all is_decimal_digit cs"
  shows "ParseUint_loop 10 maxVal n cs = (0, Some ErrSyntax)
       \<or> ParseUint_loop 10 maxVal n cs = (maxVal, Some ErrRange)"
  using assms
proof (induction cs arbitrary: n)
  case Nil
  then show ?case by simp
next
  case (Cons c cs)
  show ?case
  proof (cases "is_decimal_digit c")
    case True
    with Cons.prems have "\<not> list_all is_decimal_digit cs" by simp
    from Cons.IH [OF this] digit_val_decimal [OF True] show ?thesis
      by (simp add: Let_def)
  next
    case False
    from digit_val_other [OF this] show ?thesis
      by auto
  qed
qed

text \<open>
  \<open>ParseInt\<close> in base 10 and 32 bits succeeds exactly on the base-10 literals of 32-bit
  range, with the number the literal stands for.
\<close>

lemma ParseInt_decimal32:
  "strconv_ParseInt s 10 32 = Inr i \<longleftrightarrow> base10_integer s = Some i \<and> in_int32_range i"
proof (cases s)
  case Nil
  then show ?thesis by (simp add: strconv_ParseInt_def base10_integer_def)
next
  case (Cons c cs)
  define neg where "neg = (c = CHR ''-'')"
  define ds where "ds = (if c = CHR ''+'' \<or> c = CHR ''-'' then cs else s)"
  have spec: "base10_integer s =
      (if ds \<noteq> [] \<and> list_all is_decimal_digit ds
       then Some (if neg then - int (decimal_value ds) else int (decimal_value ds)) else None)"
    using Cons by (auto simp: base10_integer_def neg_def ds_def Let_def)
  have code: "strconv_ParseInt s 10 32 =
      (case strconv_ParseUint ds 10 32 of (un, err) \<Rightarrow>
         if err = Some ErrSyntax then Inl ErrSyntax
         else if \<not> neg \<and> un \<ge> 2147483648 then Inl ErrRange
         else if neg \<and> un > 2147483648 then Inl ErrRange
         else Inr (if neg then - int un else int un))"
    using Cons unfolding neg_def ds_def by (simp add: strconv_ParseInt_def Let_def)
  show ?thesis
  proof (cases "ds \<noteq> [] \<and> list_all is_decimal_digit ds")
    case False
    then have "strconv_ParseUint ds 10 32 = (0, Some ErrSyntax)
             \<or> strconv_ParseUint ds 10 32 = (2 ^ 32 - 1, Some ErrRange)"
      using ParseUint_loop_other [of ds "2 ^ 32 - 1" 0]
      by (auto simp: strconv_ParseUint_def)
    then have "\<exists>err. strconv_ParseInt s 10 32 = Inl err"
      unfolding code by auto
    with False spec show ?thesis by auto
  next
    case True
    let ?m = "decimal_value ds"
    from True have "strconv_ParseUint ds 10 32 =
        (if ?m \<le> 2 ^ 32 - 1 then (?m, None) else (2 ^ 32 - 1, Some ErrRange))"
      using ParseUint_loop_digits [of ds 0]
      by (simp add: strconv_ParseUint_def decimal_value_def Let_def)
    then have "strconv_ParseInt s 10 32 =
        (if \<not> neg \<and> ?m \<ge> 2147483648 then Inl ErrRange
         else if neg \<and> ?m > 2147483648 then Inl ErrRange
         else Inr (if neg then - int ?m else int ?m))"
      unfolding code by auto
    with True spec show ?thesis
      by (auto simp: in_int32_range_def)
  qed
qed

text \<open>
  C3. The value of the predicate built by the filter-by-field operation is an integer
  exactly when the literal is a base-10 integer of 32-bit range, and then it is that
  integer; in every other case it is the literal itself, as a string.
\<close>

theorem where_value_typing:
  "((\<exists>n. where_value lit = IntValue n) \<longleftrightarrow>
      (\<exists>i. base10_integer lit = Some i \<and> in_int32_range i))
   \<and> (\<forall>i. base10_integer lit = Some i \<and> in_int32_range i \<longrightarrow>
          where_value lit = IntValue (word_of_int i) \<and> sint (word_of_int i :: go_int) = i)
   \<and> ((\<nexists>i. base10_integer lit = Some i \<and> in_int32_range i) \<longrightarrow>
          where_value lit = StringValue lit)"
proof (cases "strconv_ParseInt lit 10 32")
  case (Inl err)
  then have "\<nexists>i. base10_integer lit = Some i \<and> in_int32_range i"
    using ParseInt_decimal32 [of lit] by auto
  with Inl show ?thesis
    by (auto simp: where_value_def)
next
  case (Inr i)
  then have i: "base10_integer lit = Some i" and r: "in_int32_range i"
    using ParseInt_decimal32 [of lit i] by auto
  from r have "- (2 ^ 63) \<le> i" and "i < 2 ^ 63"
    by (auto simp: in_int32_range_def)
  then have "sint (word_of_int i :: go_int) = i"
    by (simp add: signed_of_int signed_take_bit_int_eq_self)
  with Inr i r show ?thesis
    by (auto simp: where_value_def)
qed

text \<open>The examples of the spec, and a number one past the 32-bit range.\<close>

theorem where_value_typing_witness:
  "where_value ''30'' = IntValue 30
   \<and> where_value ''30abc'' = StringValue ''30abc''
   \<and> where_value ''2147483648'' = StringValue ''2147483648''"
proof -
  have a: "base10_integer ''30'' = Some 30 \<and> in_int32_range 30"
    by (simp add: base10_integer_def decimal_value_def is_decimal_digit_def in_int32_range_def)
  have b: "\<nexists>i. base10_integer ''30abc'' = Some i \<and> in_int32_range i"
    by (simp add: base10_integer_def is_decimal_digit_def)
  have c: "\<nexists>i. base10_integer ''2147483648'' = Some i \<and> in_int32_range i"
    by (simp add: base10_integer_def decimal_value_def is_decimal_digit_def in_int32_range_def)
  from where_value_typing [of "''30''"] a have "where_value ''30'' = IntValue 30"
    by simp
  moreover from where_value_typing [of "''30abc''"] b
  have "where_value ''30abc'' = StringValue ''30abc''"
    by blast
  moreover from where_value_typing [of "''2147483648''"] c
  have "where_value ''2147483648'' = StringValue ''2147483648''"
    by blast
  ultimately show ?thesis by simp
qed

section \<open>Configuration and validation\<close>

lemma initConfig_calls:
  "initConfig e flags w = (r, w0) \<Longrightarrow> calls w0 = calls w \<and> verbose w0 = verbose w"
  by (auto simp: initConfig_def world_defs split: sum.splits read_result.splits)

lemma validateRequiredParams_missing:
  assumes "GetString v ''project'' = [] \<or> GetString v ''collection'' = []"
  shows "validateRequiredParams v = Some (Errorf (missing_key v @ '' undefined''))"
  using assms by (auto simp: validateRequiredParams_def missing_key_def)

text \<open>
  A run whose settings lack a required key ends in \<open>main\<close> with exit status 1; when
  the arguments pass cobra's check, the line printed is the validation error.
\<close>

lemma main_missing_setting:
  assumes "initConfig e (inv_settings call) w = (Return v, w0)"
    and "GetString v ''project'' = [] \<or> GetString v ''collection'' = []"
  shows "fst (main e call w) = Exit 1"
    and "calls (snd (main e call w)) = calls w"
    and "command_Args (inv_command call) (inv_args call) = None \<Longrightarrow>
           main e call w =
             (Exit 1, Println (''unable to validate required params: ''
                               @ missing_key v @ '' undefined'') w0)"
proof -
  note v = validateRequiredParams_missing [OF assms(2)]
  have pre: "preRunE e v (inv_flags call) w0 =
      (Some (Wrapped ''unable to validate required params''
               (Errorf (missing_key v @ '' undefined''))), w0)"
    using v by (simp add: preRunE_def Wrap_def)
  from initConfig_calls [OF assms(1)] have c: "calls w0 = calls w" by simp
  show "fst (main e call w) = Exit 1"
    using assms(1) pre
    by (cases "command_Args (inv_command call) (inv_args call)")
       (simp_all add: main_def Execute_def)
  show "calls (snd (main e call w)) = calls w"
    using assms(1) pre c
    by (cases "command_Args (inv_command call) (inv_args call)")
       (simp_all add: main_def Execute_def world_defs)
  show "main e call w =
             (Exit 1, Println (''unable to validate required params: ''
                               @ missing_key v @ '' undefined'') w0)"
    if "command_Args (inv_command call) (inv_args call) = None"
    using assms(1) pre that by (simp add: main_def Execute_def)
qed

text \<open>
  C4. When after the merge of the configuration sources the project or the collection
  is empty, the pre-run validation returns an error that names the first missing key,
  no call to the store is made, and the process exits with status 1, for each of the
  three commands and whatever the arguments and the other flags are. When the
  positional arguments pass cobra's check, the line printed is that error under its
  context message.
\<close>

theorem missing_setting_fails_validation:
  assumes "initConfig e (inv_settings call) w = (Return v, w0)"
    and "GetString v ''project'' = [] \<or> GetString v ''collection'' = []"
  shows "validateRequiredParams v = Some (Errorf (missing_key v @ '' undefined''))
       \<and> fst (main e call w) = Exit 1
       \<and> exit_code (fst (main e call w)) \<noteq> 0
       \<and> calls (snd (main e call w)) = calls w
       \<and> (command_Args (inv_command call) (inv_args call) = None \<longrightarrow>
            main e call w =
              (Exit 1, Println (''unable to validate required params: ''
                                @ missing_key v @ '' undefined'') w0))"
  using validateRequiredParams_missing [OF assms(2)] main_missing_setting [OF assms]
  by simp

text \<open>
  A configuration file that gives the project only: \<open>get\<close>, \<open>documents\<close> with the
  unlimited flag and \<open>where\<close> all end on the missing collection.
\<close>

theorem missing_setting_fails_validation_witness:
  "main (sample_env\<lparr>ReadInConfig := (\<lambda>name paths. Loaded (sample_file\<lparr>src_collection := None\<rparr>))\<rparr>)
      \<lparr>inv_command = Get, inv_args = [''alice''], inv_flags = sample_flags 100 False,
       inv_settings = no_flags\<rparr> start =
     (Exit 1,
      \<lparr>stdout = [''unable to validate required params: collection undefined'' @ [CHR 0x0A]],
       calls = [], verbose = False\<rparr>)
   \<and> main (sample_env\<lparr>ReadInConfig := (\<lambda>name paths. Loaded (sample_file\<lparr>src_collection := None\<rparr>))\<rparr>)
      \<lparr>inv_command = Documents, inv_args = [], inv_flags = sample_flags 5 True,
       inv_settings = no_flags\<lparr>src_prettyprint := Some True\<rparr>\<rparr> start =
     (Exit 1,
      \<lparr>stdout = [''unable to validate required params: collection undefined'' @ [CHR 0x0A]],
       calls = [], verbose = False\<rparr>)"
proof -
  let ?e = "sample_env\<lparr>ReadInConfig := (\<lambda>name paths. Loaded (sample_file\<lparr>src_collection := None\<rparr>))\<rparr>"
  let ?c1 = "\<lparr>inv_command = Get, inv_args = [''alice''], inv_flags = sample_flags 100 False,
       inv_settings = no_flags\<rparr>"
  let ?c2 = "\<lparr>inv_command = Documents, inv_args = [], inv_flags = sample_flags 5 True,
       inv_settings = no_flags\<lparr>src_prettyprint := Some True\<rparr>\<rparr>"
  let ?v1 = "\<lparr>bound_flags = no_flags, config_file = Some (sample_file\<lparr>src_collection := None\<rparr>)\<rparr>"
  let ?v2 = "\<lparr>bound_flags = no_flags\<lparr>src_prettyprint := Some True\<rparr>,
             config_file = Some (sample_file\<lparr>src_collection := None\<rparr>)\<rparr>"
  have i1: "initConfig ?e (inv_settings ?c1) start = (Return ?v1, start)"
    and i2: "initConfig ?e (inv_settings ?c2) start = (Return ?v2, start)"
    by (simp_all add: initConfig_def sample_defs)
  have m1: "GetString ?v1 ''project'' = [] \<or> GetString ?v1 ''collection'' = []"
    and m2: "GetString ?v2 ''project'' = [] \<or> GetString ?v2 ''collection'' = []"
    by (simp_all add: sample_defs)
  have a1: "command_Args (inv_command ?c1) (inv_args ?c1) = None"
    and a2: "command_Args (inv_command ?c2) (inv_args ?c2) = None"
    by (simp_all add: ExactArgs_def)
  from missing_setting_fails_validation [OF i1 m1] a1
  have 1: "main ?e ?c1 start =
     (Exit 1,
      \<lparr>stdout = [''unable to validate required params: collection undefined'' @ [CHR 0x0A]],
       calls = [], verbose = False\<rparr>)"
    by (simp add: missing_key_def sample_defs world_defs)
  from missing_setting_fails_validation [OF i2 m2] a2
  have 2: "main ?e ?c2 start =
     (Exit 1,
      \<lparr>stdout = [''unable to validate required params: collection undefined'' @ [CHR 0x0A]],
       calls = [], verbose = False\<rparr>)"
    by (simp add: missing_key_def sample_defs world_defs)
  from 1 2 show ?thesis by simp
qed

text \<open>
  C9, as the spec states it, does not hold. With no configuration file in any of the
  searched places and no flags, \<open>initConfig\<close> does not fail: it prints a notice and
  returns, and the run fails in the pre-run validation, with the error a missing key
  gives after a merge that found a file.
\<close>

theorem no_config_file_counterexample:
  "initConfig (sample_env\<lparr>ReadInConfig := (\<lambda>name paths. ConfigFileNotFoundError)\<rparr>) no_flags start =
     (Return \<lparr>bound_flags = no_flags, config_file = None\<rparr>, Print configNotFound start)
   \<and> main (sample_env\<lparr>ReadInConfig := (\<lambda>name paths. ConfigFileNotFoundError)\<rparr>)
        \<lparr>inv_command = Documents, inv_args = [], inv_flags = sample_flags 100 False,
         inv_settings = no_flags\<rparr> start =
     (Exit 1,
      \<lparr>stdout = [configNotFound,
                 ''unable to validate required params: project undefined'' @ [CHR 0x0A]],
       calls = [], verbose = False\<rparr>)
   \<and> main (sample_env\<lparr>ReadInConfig := (\<lambda>name paths. Loaded no_flags)\<rparr>)
        \<lparr>inv_command = Documents, inv_args = [], inv_flags = sample_flags 100 False,
         inv_settings = no_flags\<rparr> start =
     (Exit 1,
      \<lparr>stdout = [''unable to validate required params: project undefined'' @ [CHR 0x0A]],
       calls = [], verbose = False\<rparr>)"
  by (simp add: initConfig_def main_def Execute_def preRunE_def validateRequiredParams_def
      Wrap_def sample_defs world_defs)

text \<open>
  C9, amended. When no configuration file is found, \<open>initConfig\<close> prints the notice
  \<open>configNotFound\<close> and returns with the settings of the flags alone. When the flags
  leave out the project or the collection, the run then fails in the pre-run validation:
  the process prints the validation error naming the first missing key and exits with
  status 1, having made no call to the store. (The positional arguments are taken to
  pass cobra's check.)
\<close>

theorem no_config_file_is_validation_error:
  assumes "homedir_Dir e = Inr home"
    and "ReadInConfig e ''firestore-cli'' [''.'', home, home @ ''/.config/firestore-cli'']
           = ConfigFileNotFoundError"
    and "src_project (inv_settings call) = None \<or> src_collection (inv_settings call) = None"
    and "command_Args (inv_command call) (inv_args call) = None"
    and "v = \<lparr>bound_flags = inv_settings call, config_file = None\<rparr>"
  shows "initConfig e (inv_settings call) w = (Return v, Print configNotFound w)
       \<and> main e call w =
            (Exit 1, Println (''unable to validate required params: ''
                              @ missing_key v @ '' undefined'') (Print configNotFound w))
       \<and> calls (snd (main e call w)) = calls w"
proof -
  have i: "initConfig e (inv_settings call) w = (Return v, Print configNotFound w)"
    using assms(1,2,5) by (simp add: initConfig_def)
  have m: "GetString v ''project'' = [] \<or> GetString v ''collection'' = []"
    using assms(3,5) by (auto simp: GetString_def lookup_string_def)
  from main_missing_setting(2,3) [OF i m] assms(4) i show ?thesis
    by simp
qed

text \<open>No file and only the project given by a flag: the collection is reported.\<close>

theorem no_config_file_is_validation_error_witness:
  "main (sample_env\<lparr>ReadInConfig := (\<lambda>name paths. ConfigFileNotFoundError)\<rparr>)
        \<lparr>inv_command = Where, inv_args = [''age'', ''=='', ''30''],
         inv_flags = sample_flags 100 False,
         inv_settings = no_flags\<lparr>src_project := Some ''demo-project''\<rparr>\<rparr> start =
     (Exit 1,
      \<lparr>stdout = [configNotFound,
                 ''unable to validate required params: collection undefined'' @ [CHR 0x0A]],
       calls = [], verbose = False\<rparr>)"
proof -
  let ?e = "sample_env\<lparr>ReadInConfig := (\<lambda>name paths. ConfigFileNotFoundError)\<rparr>"
  let ?call = "\<lparr>inv_command = Where, inv_args = [''age'', ''=='', ''30''],
         inv_flags = sample_flags 100 False,
         inv_settings = no_flags\<lparr>src_project := Some ''demo-project''\<rparr>\<rparr>"
  have 1: "homedir_Dir ?e = Inr ''/home/user''"
    by (simp add: sample_defs)
  have 2: "ReadInConfig ?e ''firestore-cli''
             [''.'', ''/home/user'', ''/home/user'' @ ''/.config/firestore-cli'']
           = ConfigFileNotFoundError"
    by simp
  have 3: "src_project (inv_settings ?call) = None \<or> src_collection (inv_settings ?call) = None"
    by (simp add: sample_defs)
  have 4: "command_Args (inv_command ?call) (inv_args ?call) = None"
    by (simp add: ExactArgs_def)
  from no_config_file_is_validation_error [OF 1 2 3 4 refl, of start]
  show ?thesis
    by (simp add: missing_key_def sample_defs world_defs)
qed

section \<open>How errors travel\<close>

text \<open>
  The loop ends without an error only when every fetch returned a document that
  serialized, or the end of the stream; what it printed is those documents.
\<close>

lemma loop_success:
  assumes "iterate_loop e v limit unlimited c iter w = (None, rest, w')"
  shows "\<exists>ds ss. iter = map Yield ds @ rest \<and> map (jsonString e v) ds = map Inr ss
           \<and> stdout w' = stdout w @ lines ss \<and> verbose w' = verbose w
           \<and> (calls w' = calls w @ replicate (length ds) IterNext \<and> ds \<noteq> []
              \<or> rest = [] \<and> calls w' = calls w @ replicate (Suc (length ds)) IterNext)"
  using assms
proof (induction iter arbitrary: c w)
  case Nil
  then show ?case
    by (intro exI [of _ "[]"]) (auto simp: lines_def world_defs)
next
  case (Cons x iter)
  show ?case
  proof (cases x)
    case (Fail err)
    with Cons.prems show ?thesis by (simp add: Wrap_def)
  next
    case (Yield d)
    show ?thesis
    proof (cases "jsonString e v d")
      case (Inl err)
      with Yield Cons.prems show ?thesis by simp
    next
      case (Inr s)
      let ?w1 = "Println s (record_call IterNext w)"
      show ?thesis
      proof (cases "\<not> unlimited \<and> sint limit \<le> sint c")
        case True
        with Yield Inr Cons.prems have "rest = iter" and "w' = ?w1" by auto
        with Yield Inr show ?thesis
          by (intro exI [of _ "[d]"] exI [of _ "[s]"]) (simp add: lines_def world_defs)
      next
        case False
        with Yield Inr Cons.prems
        have "iterate_loop e v limit unlimited (c + 1) iter ?w1 = (None, rest, w')"
          by (auto simp: Let_def)
        from Cons.IH [OF this] obtain ds ss where
          "iter = map Yield ds @ rest" "map (jsonString e v) ds = map Inr ss"
          "stdout w' = stdout ?w1 @ lines ss" "verbose w' = verbose ?w1"
          "calls w' = calls ?w1 @ replicate (length ds) IterNext \<and> ds \<noteq> []
              \<or> rest = [] \<and> calls w' = calls ?w1 @ replicate (Suc (length ds)) IterNext"
          by blast
        with Yield Inr show ?thesis
          by (intro exI [of _ "d # ds"] exI [of _ "s # ss"])
             (auto simp: lines_def world_defs replicate_append_same)
      qed
    qed
  qed
qed

text \<open>
  The loop ends with an error only at a fetch that failed or at a document that did not
  serialize; the error is that of the failing step, the documents before it are printed.
\<close>

lemma loop_failure:
  assumes "iterate_loop e v limit unlimited c iter w = (Some err, rest, w')"
  shows "\<exists>ds ss. map (jsonString e v) ds = map Inr ss
           \<and> stdout w' = stdout w @ lines ss \<and> verbose w' = verbose w
           \<and> calls w' = calls w @ replicate (Suc (length ds)) IterNext
           \<and> ((\<exists>x. iter = map Yield ds @ Fail x # rest
                    \<and> err = Wrapped ''unable to iterate documents'' x)
              \<or> (\<exists>d. iter = map Yield ds @ Yield d # rest \<and> jsonString e v d = Inl err))"
  using assms
proof (induction iter arbitrary: c w)
  case Nil
  then show ?case by simp
next
  case (Cons x iter)
  show ?case
  proof (cases x)
    case (Fail x')
    with Cons.prems show ?thesis
      by (intro exI [of _ "[]"]) (auto simp: Wrap_def lines_def world_defs)
  next
    case (Yield d)
    show ?thesis
    proof (cases "jsonString e v d")
      case (Inl err')
      with Yield Cons.prems show ?thesis
        by (intro exI [of _ "[]"]) (auto simp: lines_def world_defs)
    next
      case (Inr s)
      let ?w1 = "Println s (record_call IterNext w)"
      show ?thesis
      proof (cases "\<not> unlimited \<and> sint limit \<le> sint c")
        case True
        with Yield Inr Cons.prems show ?thesis by auto
      next
        case False
        with Yield Inr Cons.prems
        have "iterate_loop e v limit unlimited (c + 1) iter ?w1 = (Some err, rest, w')"
          by (auto simp: Let_def)
        from Cons.IH [OF this] obtain ds ss where
          "map (jsonString e v) ds = map Inr ss"
          "stdout w' = stdout ?w1 @ lines ss" "verbose w' = verbose ?w1"
          "calls w' = calls ?w1 @ replicate (Suc (length ds)) IterNext"
          "(\<exists>x. iter = map Yield ds @ Fail x # rest
                    \<and> err = Wrapped ''unable to iterate documents'' x)
              \<or> (\<exists>d. iter = map Yield ds @ Yield d # rest \<and> jsonString e v d = Inl err)"
          by blast
        with Yield Inr show ?thesis
          by (intro exI [of _ "d # ds"] exI [of _ "s # ss"])
             (auto simp: lines_def world_defs replicate_append_same)
      qed
    qed
  qed
qed

lemma iterate_outcome:
  assumes "iterate e v fl iter w = (r, rest, w')"
  shows "\<exists>k. k \<le> Suc (length iter) \<and> calls w' = calls w @ replicate k IterNext
           \<and> (case r of
                 Some err \<Rightarrow>
                   (\<exists>x. flag_limit fl = Inl x
                        \<and> err = Wrapped ''unable to parse flag \"limit\"'' x)
                   \<or> (\<exists>x. flag_unlimited fl = Inl x
                        \<and> err = Wrapped ''unable to parse flag \"unlimited\"'' x)
                   \<or> (\<exists>x. Fail x \<in> set iter
                        \<and> err = Wrapped ''unable to iterate documents'' x)
                   \<or> (\<exists>d. Yield d \<in> set iter \<and> jsonString e v d = Inl err)
               | None \<Rightarrow>
                   (\<exists>limit unlimited. flag_limit fl = Inr limit \<and> flag_unlimited fl = Inr unlimited)
                   \<and> (\<exists>ds ss. iter = map Yield ds @ rest
                         \<and> map (jsonString e v) ds = map Inr ss
                         \<and> (k = length ds \<or> rest = [] \<and> k = Suc (length ds))))"
proof (cases "flag_limit fl")
  case (Inl err)
  with assms show ?thesis
    by (intro exI [of _ 0]) (auto simp: iterate_def Wrap_def)
next
  case limit: (Inr limit)
  show ?thesis
  proof (cases "flag_unlimited fl")
    case (Inl err)
    with limit assms show ?thesis
      by (intro exI [of _ 0]) (auto simp: iterate_def Wrap_def)
  next
    case (Inr unlimited)
    with limit assms have loop: "iterate_loop e v limit unlimited 1 iter w = (r, rest, w')"
      by (simp add: iterate_def)
    show ?thesis
    proof (cases r)
      case None
      from loop_success [OF loop [unfolded None]] obtain ds ss where
        *: "iter = map Yield ds @ rest" "map (jsonString e v) ds = map Inr ss"
        and **: "calls w' = calls w @ replicate (length ds) IterNext \<and> ds \<noteq> []
              \<or> rest = [] \<and> calls w' = calls w @ replicate (Suc (length ds)) IterNext"
        by blast
      from ** show ?thesis
      proof
        assume "calls w' = calls w @ replicate (length ds) IterNext \<and> ds \<noteq> []"
        with * None limit Inr show ?thesis
          by (intro exI [of _ "length ds"]) auto
      next
        assume "rest = [] \<and> calls w' = calls w @ replicate (Suc (length ds)) IterNext"
        with * None limit Inr show ?thesis
          by (intro exI [of _ "Suc (length ds)"]) auto
      qed
    next
      case (Some err)
      from loop_failure [OF loop [unfolded Some]] obtain ds ss where
        c: "calls w' = calls w @ replicate (Suc (length ds)) IterNext"
        and f: "(\<exists>x. iter = map Yield ds @ Fail x # rest
                    \<and> err = Wrapped ''unable to iterate documents'' x)
              \<or> (\<exists>d. iter = map Yield ds @ Yield d # rest \<and> jsonString e v d = Inl err)"
        by blast
      from f have "((\<exists>x. Fail x \<in> set iter
                        \<and> err = Wrapped ''unable to iterate documents'' x)
                   \<or> (\<exists>d. Yield d \<in> set iter \<and> jsonString e v d = Inl err))
                \<and> Suc (length ds) \<le> Suc (length iter)"
        by auto
      with c Some show ?thesis
        by (intro exI [of _ "Suc (length ds)"]) simp
    qed
  qed
qed

lemma jsonString_failure:
  assumes "jsonString e v d = Inl err"
  shows "\<exists>x. (if GetBool v ''prettyprint'' then json_MarshalIndent e d [] ''  ''
              else json_Marshal e d) = Inl x
             \<and> err = Wrapped ''unable to marshal document to json'' x"
  using assms by (auto simp: jsonString_def split: sum.splits)

lemma step_failure_context:
  "step_failure e v cmd args fl err \<Longrightarrow> has_context err"
  by (induction rule: step_failure.induct) (simp_all add: step_messages_def)

lemma preRunE_outcome:
  assumes "preRunE e v fl w0 = (r, w1)"
  shows "(case r of
            Some err \<Rightarrow> step_failure e v cmd args fl err \<and> stdout w1 = stdout w0
              \<and> (calls w1 = calls w0 \<or> calls w1 = calls w0 @ [NewClient (GetString v ''project'')])
          | None \<Rightarrow> validateRequiredParams v = None
              \<and> (\<exists>b. flag_verbose fl = Inr b)
              \<and> firestore_NewClient e (GetString v ''project'') = None
              \<and> stdout w1 = stdout w0
              \<and> calls w1 = calls w0 @ [NewClient (GetString v ''project'')])"
proof (cases "validateRequiredParams v")
  case (Some x)
  with assms step_failure.validation [OF Some, of e cmd args fl] show ?thesis
    by (auto simp: preRunE_def Wrap_def)
next
  case None
  show ?thesis
  proof (cases "flag_verbose fl")
    case (Inl x)
    with None assms step_failure.verbose_flag [OF Inl, of e v cmd args] show ?thesis
      by (auto simp: preRunE_def Wrap_def)
  next
    case (Inr b)
    show ?thesis
    proof (cases "firestore_NewClient e (GetString v ''project'')")
      case client: None
      with None Inr assms show ?thesis
        by (auto simp: preRunE_def initFirestoreClient_def Wrap_def Let_def world_defs)
    next
      case (Some x)
      with None Inr assms step_failure.client [OF Some, of cmd args fl] show ?thesis
        by (auto simp: preRunE_def initFirestoreClient_def Wrap_def Let_def world_defs)
    qed
  qed
qed

lemma rendered_steps_ok:
  assumes "map (jsonString e v) ds = map Inr ss"
  shows "list_all (step_ok e v) (map Yield ds)"
  using assms
proof (induction ds arbitrary: ss)
  case Nil
  show ?case by simp
next
  case (Cons d ds)
  then obtain s ss' where "jsonString e v d = Inr s" and "map (jsonString e v) ds = map Inr ss'"
    by (cases ss) auto
  with Cons.IH show ?case by (simp add: step_ok_def)
qed

lemma count_replicate_IterNext: "count_list (replicate k IterNext) IterNext = k"
  by (induction k) simp_all

lemma filter_replicate_IterNext: "filter (\<lambda>c. c \<noteq> IterNext) (replicate k IterNext) = []"
  by (induction k) simp_all

lemma iteration_failure:
  assumes "cmd \<noteq> Get" and "opened_stream e v cmd args = iter"
    and "(\<exists>x. flag_limit fl = Inl x
              \<and> err = Wrapped ''unable to parse flag \"limit\"'' x)
         \<or> (\<exists>x. flag_unlimited fl = Inl x
              \<and> err = Wrapped ''unable to parse flag \"unlimited\"'' x)
         \<or> (\<exists>x. Fail x \<in> set iter
              \<and> err = Wrapped ''unable to iterate documents'' x)
         \<or> (\<exists>d. Yield d \<in> set iter \<and> jsonString e v d = Inl err)"
  shows "step_failure e v cmd args fl err"
proof -
  consider x where "flag_limit fl = Inl x" "err = Wrapped ''unable to parse flag \"limit\"'' x"
    | x where "flag_unlimited fl = Inl x" "err = Wrapped ''unable to parse flag \"unlimited\"'' x"
    | x where "Fail x \<in> set iter" "err = Wrapped ''unable to iterate documents'' x"
    | d where "Yield d \<in> set iter" "jsonString e v d = Inl err"
    using assms(3) by blast
  then show ?thesis
  proof cases
    case 1
    with assms(1) show ?thesis by (simp add: step_failure.limit_flag)
  next
    case 2
    with assms(1) show ?thesis by (simp add: step_failure.unlimited_flag)
  next
    case 3
    with assms(2) show ?thesis by (simp add: step_failure.fetch)
  next
    case 4
    from jsonString_failure [OF 4(2)] obtain x where
      "(if GetBool v ''prettyprint'' then json_MarshalIndent e d [] ''  ''
        else json_Marshal e d) = Inl x"
      and "err = Wrapped ''unable to marshal document to json'' x"
      by blast
    with 4(1) assms(2) show ?thesis
      using step_failure.marshal [of d e v cmd args x fl] by simp
  qed
qed

text \<open>
  What a command does after the pre-run, when it is \<open>get\<close> or the client has a
  collection for the path: it returns, its calls to the store are the opening of the
  stream, the fetches and the stop (or the one \<open>Get\<close>), an error it returns carries a
  context message, and it returns none only when its steps succeeded.
\<close>

lemma RunE_outcome:
  assumes "command_Args cmd args = None"
    and "cmd = Get \<or> collection e v \<noteq> None"
  shows "\<exists>r w' t. RunE cmd e v fl args w = (Return r, w') \<and> calls w' = calls w @ t
           \<and> distinct (filter (\<lambda>c. c \<noteq> IterNext) t)
           \<and> (\<forall>project. NewClient project \<notin> set t)
           \<and> count_list t IterNext \<le> Suc (length (opened_stream e v cmd args))
           \<and> (case r of
                 Some err \<Rightarrow> step_failure e v cmd args fl err
               | None \<Rightarrow> command_steps_ok e v cmd args fl (count_list t IterNext))"
proof (cases cmd)
  case Get
  with assms obtain documentID where args: "args = [documentID]"
    by (cases args) (auto simp: ExactArgs_def split: if_splits)
  let ?coll = "GetString v ''collection''"
  let ?w2 = "record_call (DocGet ?coll documentID) (get_verbose e v documentID w)"
  have c: "calls ?w2 = calls w @ [DocGet ?coll documentID]"
    by (simp add: get_verbose_def world_defs)
  show ?thesis
  proof (cases "DocRef_Get e (collection e v) documentID")
    case (Inl err)
    with Get args show ?thesis
      using c step_failure.get_document [OF Get args Inl, of fl]
      by (intro exI [of _ "Some (Wrapped ''unable to get document'' err)"] exI [of _ ?w2]
          exI [of _ "[DocGet ?coll documentID]"])
         (simp add: get_def Let_def Wrap_def)
  next
    case (Inr d)
    show ?thesis
    proof (cases "jsonString e v d")
      case err: (Inl err)
      from jsonString_failure [OF this] obtain x where
        x: "(if GetBool v ''prettyprint'' then json_MarshalIndent e d [] ''  ''
             else json_Marshal e d) = Inl x"
        and "err = Wrapped ''unable to marshal document to json'' x"
        by blast
      with Get args Inr err show ?thesis
        using c step_failure.get_marshal [OF Get args Inr x, of fl]
        by (intro exI [of _ "Some err"] exI [of _ ?w2] exI [of _ "[DocGet ?coll documentID]"])
           (simp add: get_def Let_def)
    next
      case s: (Inr s)
      with Get args Inr show ?thesis
        using c
        by (intro exI [of _ None] exI [of _ "Println s ?w2"] exI [of _ "[DocGet ?coll documentID]"])
           (simp add: get_def Let_def command_steps_ok_def
              step_ok_def Println_def Print_def)
    qed
  qed
next
  case Documents
  with assms(2) obtain coll where coll: "collection e v = Some coll"
    by auto
  let ?iter = "Collection_Documents e coll"
  let ?w0 = "record_call (OpenDocuments coll) w"
  obtain r rest w1 where it: "iterate e v fl ?iter ?w0 = (r, rest, w1)"
    by (cases "iterate e v fl ?iter ?w0") auto
  from iterate_outcome [OF it] obtain k where k: "k \<le> Suc (length ?iter)"
    and c: "calls w1 = calls ?w0 @ replicate k IterNext"
    and o: "case r of
                 Some err \<Rightarrow>
                   (\<exists>x. flag_limit fl = Inl x
                        \<and> err = Wrapped ''unable to parse flag \"limit\"'' x)
                   \<or> (\<exists>x. flag_unlimited fl = Inl x
                        \<and> err = Wrapped ''unable to parse flag \"unlimited\"'' x)
                   \<or> (\<exists>x. Fail x \<in> set ?iter
                        \<and> err = Wrapped ''unable to iterate documents'' x)
                   \<or> (\<exists>d. Yield d \<in> set ?iter \<and> jsonString e v d = Inl err)
               | None \<Rightarrow>
                   (\<exists>limit unlimited. flag_limit fl = Inr limit \<and> flag_unlimited fl = Inr unlimited)
                   \<and> (\<exists>ds ss. ?iter = map Yield ds @ rest
                         \<and> map (jsonString e v) ds = map Inr ss
                         \<and> (k = length ds \<or> rest = [] \<and> k = Suc (length ds)))"
    by blast
  have notget: "cmd \<noteq> Get" and stream: "opened_stream e v cmd args = ?iter"
    using Documents coll by (simp_all add: opened_stream_def)
  let ?t = "OpenDocuments coll # replicate k IterNext @ [IterStop]"
  have run: "RunE cmd e v fl args w = (Return r, record_call IterStop w1)"
    using Documents it coll by (simp add: documents_def)
  have calls: "calls (record_call IterStop w1) = calls w @ ?t"
    using c by (simp add: record_call_def)
  have shape: "distinct (filter (\<lambda>c. c \<noteq> IterNext) ?t)" "\<forall>project. NewClient project \<notin> set ?t"
    "count_list ?t IterNext = k"
    by (simp_all add: filter_replicate_IterNext count_replicate_IterNext)
  have res: "case r of Some err \<Rightarrow> step_failure e v cmd args fl err
               | None \<Rightarrow> command_steps_ok e v cmd args fl k"
  proof (cases r)
    case (Some err)
    with o have "step_failure e v cmd args fl err"
      using iteration_failure [OF notget stream] by simp
    with Some show ?thesis by simp
  next
    case None
    with o obtain ds ss where fl: "\<not> isl (flag_limit fl)" "\<not> isl (flag_unlimited fl)"
      and ds: "?iter = map Yield ds @ rest" "map (jsonString e v) ds = map Inr ss"
      "k = length ds \<or> rest = [] \<and> k = Suc (length ds)"
      by auto
    from ds(1,3) have "take k ?iter = map Yield ds" by auto
    with rendered_steps_ok [OF ds(2)] have "list_all (step_ok e v) (take k ?iter)" by simp
    with None fl k Documents coll stream show ?thesis
      by (simp add: command_steps_ok_def)
  qed
  have bound: "count_list ?t IterNext \<le> Suc (length (opened_stream e v cmd args))"
    using k by (simp only: shape(3) stream)
  have res': "case r of Some err \<Rightarrow> step_failure e v cmd args fl err
               | None \<Rightarrow> command_steps_ok e v cmd args fl (count_list ?t IterNext)"
    using res by (simp only: shape(3))
  from run calls shape(1,2) bound res' show ?thesis
    by blast
next
  case Where
  with assms(2) obtain coll where coll: "collection e v = Some coll"
    by auto
  from Where assms(1) have "length args = 3"
    by (simp add: ExactArgs_def split: if_splits)
  then obtain path op lit where args: "args = [path, op, lit]"
    by (auto simp: numeral_3_eq_3 length_Suc_conv)
  let ?val = "where_value lit"
  let ?iter = "Query_Documents e coll path op ?val"
  let ?w0 = "record_call (OpenWhere coll path op ?val) (where_verbose v fl path op ?val w)"
  have vcalls: "calls (where_verbose v fl path op ?val w) = calls w"
    by (simp add: where_verbose_def Print_def split: sum.splits bool.splits)
  obtain r rest w1 where it: "iterate e v fl ?iter ?w0 = (r, rest, w1)"
    by (cases "iterate e v fl ?iter ?w0") auto
  from iterate_outcome [OF it] obtain k where k: "k \<le> Suc (length ?iter)"
    and c: "calls w1 = calls ?w0 @ replicate k IterNext"
    and o: "case r of
                 Some err \<Rightarrow>
                   (\<exists>x. flag_limit fl = Inl x
                        \<and> err = Wrapped ''unable to parse flag \"limit\"'' x)
                   \<or> (\<exists>x. flag_unlimited fl = Inl x
                        \<and> err = Wrapped ''unable to parse flag \"unlimited\"'' x)
                   \<or> (\<exists>x. Fail x \<in> set ?iter
                        \<and> err = Wrapped ''unable to iterate documents'' x)
                   \<or> (\<exists>d. Yield d \<in> set ?iter \<and> jsonString e v d = Inl err)
               | None \<Rightarrow>
                   (\<exists>limit unlimited. flag_limit fl = Inr limit \<and> flag_unlimited fl = Inr unlimited)
                   \<and> (\<exists>ds ss. ?iter = map Yield ds @ rest
                         \<and> map (jsonString e v) ds = map Inr ss
                         \<and> (k = length ds \<or> rest = [] \<and> k = Suc (length ds)))"
    by blast
  have notget: "cmd \<noteq> Get" and stream: "opened_stream e v cmd args = ?iter"
    using Where args coll by (simp_all add: opened_stream_def)
  let ?t = "OpenWhere coll path op ?val # replicate k IterNext @ [IterStop]"
  have run: "RunE cmd e v fl args w = (Return r, record_call IterStop w1)"
    using Where args it coll by (simp add: where_cmd_def Let_def)
  have calls: "calls (record_call IterStop w1) = calls w @ ?t"
    using c vcalls by (simp add: record_call_def)
  have shape: "distinct (filter (\<lambda>c. c \<noteq> IterNext) ?t)" "\<forall>project. NewClient project \<notin> set ?t"
    "count_list ?t IterNext = k"
    by (simp_all add: filter_replicate_IterNext count_replicate_IterNext)
  have res: "case r of Some err \<Rightarrow> step_failure e v cmd args fl err
               | None \<Rightarrow> command_steps_ok e v cmd args fl k"
  proof (cases r)
    case (Some err)
    with o have "step_failure e v cmd args fl err"
      using iteration_failure [OF notget stream] by simp
    with Some show ?thesis by simp
  next
    case None
    with o obtain ds ss where fl: "\<not> isl (flag_limit fl)" "\<not> isl (flag_unlimited fl)"
      and ds: "?iter = map Yield ds @ rest" "map (jsonString e v) ds = map Inr ss"
      "k = length ds \<or> rest = [] \<and> k = Suc (length ds)"
      by auto
    from ds(1,3) have "take k ?iter = map Yield ds" by auto
    with rendered_steps_ok [OF ds(2)] have "list_all (step_ok e v) (take k ?iter)" by simp
    with None fl k Where coll stream show ?thesis
      by (simp add: command_steps_ok_def)
  qed
  have bound: "count_list ?t IterNext \<le> Suc (length (opened_stream e v cmd args))"
    using k by (simp only: shape(3) stream)
  have res': "case r of Some err \<Rightarrow> step_failure e v cmd args fl err
               | None \<Rightarrow> command_steps_ok e v cmd args fl (count_list ?t IterNext)"
    using res by (simp only: shape(3))
  from run calls shape(1,2) bound res' show ?thesis
    by blast
qed

text \<open>
  Without a collection for the path, the list-all and the filter-by-field commands
  dereference the nil reference: they panic, having made no call to the store.
\<close>

lemma RunE_nil_collection:
  assumes "command_Args cmd args = None"
    and "cmd \<noteq> Get" and "collection e v = None"
  shows "\<exists>w'. RunE cmd e v fl args w = (Panic nil_dereference, w') \<and> calls w' = calls w"
proof (cases cmd)
  case Get
  with assms(2) show ?thesis by simp
next
  case Documents
  with assms(3) show ?thesis by (simp add: documents_def)
next
  case Where
  with assms(1) have "length args = 3"
    by (simp add: ExactArgs_def split: if_splits)
  then obtain path op lit where args: "args = [path, op, lit]"
    by (auto simp: numeral_3_eq_3 length_Suc_conv)
  have "calls (where_verbose v fl path op (where_value lit) w) = calls w"
    by (simp add: where_verbose_def Print_def split: sum.splits bool.splits)
  with Where args assms(3) show ?thesis
    by (simp add: where_cmd_def Let_def)
qed

text \<open>The same for a whole run that got past the loading of the configuration.\<close>

lemma Execute_outcome:
  assumes "initConfig e (inv_settings call) w = (Return v, w0)"
    and "command_Args (inv_command call) (inv_args call) = None"
    and "inv_command call = Get \<or> collection e v \<noteq> None"
  shows "\<exists>r w' t. Execute e call w = (Return r, w') \<and> calls w' = calls w @ t
           \<and> distinct (filter (\<lambda>c. c \<noteq> IterNext) t)
           \<and> count_list t IterNext
                \<le> Suc (length (opened_stream e v (inv_command call) (inv_args call)))
           \<and> (case r of
                 Some err \<Rightarrow>
                   step_failure e v (inv_command call) (inv_args call) (inv_flags call) err
               | None \<Rightarrow> all_steps_ok e v call (count_list t IterNext))"
proof -
  let ?fl = "inv_flags call"
  let ?p = "GetString v ''project''"
  from initConfig_calls [OF assms(1)] have c0: "calls w0 = calls w" by simp
  obtain rp w1 where pre: "preRunE e v ?fl w0 = (rp, w1)"
    by (cases "preRunE e v ?fl w0") auto
  note po = preRunE_outcome [OF pre, of "inv_command call" "inv_args call"]
  show ?thesis
  proof (cases rp)
    case (Some err)
    with po have h: "step_failure e v (inv_command call) (inv_args call) ?fl err"
      and c: "calls w1 = calls w0 \<or> calls w1 = calls w0 @ [NewClient ?p]"
      by simp_all
    have ex: "Execute e call w = (Return (Some err), w1)"
      using assms(1,2) pre Some by (simp add: Execute_def)
    from c show ?thesis
    proof
      assume "calls w1 = calls w0"
      with ex h c0 show ?thesis
        by (intro exI [of _ "Some err"] exI [of _ w1] exI [of _ "[]"]) simp
    next
      assume "calls w1 = calls w0 @ [NewClient ?p]"
      with ex h c0 show ?thesis
        by (intro exI [of _ "Some err"] exI [of _ w1] exI [of _ "[NewClient ?p]"]) simp
    qed
  next
    case None
    with po have ok: "validateRequiredParams v = None" "\<exists>b. flag_verbose ?fl = Inr b"
      "firestore_NewClient e ?p = None"
      and c1: "calls w1 = calls w0 @ [NewClient ?p]"
      by simp_all
    from RunE_outcome [OF assms(2,3), of ?fl w1] obtain r w' t where
      run: "RunE (inv_command call) e v ?fl (inv_args call) w1 = (Return r, w')"
      and c: "calls w' = calls w1 @ t"
      and d: "distinct (filter (\<lambda>c. c \<noteq> IterNext) t)" "\<forall>project. NewClient project \<notin> set t"
      and k: "count_list t IterNext
                \<le> Suc (length (opened_stream e v (inv_command call) (inv_args call)))"
      and o: "case r of
                Some err \<Rightarrow> step_failure e v (inv_command call) (inv_args call) ?fl err
              | None \<Rightarrow> command_steps_ok e v (inv_command call) (inv_args call) ?fl
                          (count_list t IterNext)"
      by blast
    let ?t = "NewClient ?p # t"
    have ex: "Execute e call w = (Return r, w')"
      using assms(1,2) pre None run by (simp add: Execute_def)
    have calls: "calls w' = calls w @ ?t"
      using c c1 c0 by simp
    have dist: "distinct (filter (\<lambda>c. c \<noteq> IterNext) ?t)"
      using d by simp
    have cnt: "count_list ?t IterNext = count_list t IterNext"
      by simp
    have res: "case r of
                 Some err \<Rightarrow> step_failure e v (inv_command call) (inv_args call) ?fl err
               | None \<Rightarrow> all_steps_ok e v call (count_list ?t IterNext)"
      using o ok unfolding cnt by (auto simp: all_steps_ok_def split: option.splits)
    from ex calls dist k [folded cnt] res show ?thesis
      by blast
  qed
qed

text \<open>
  A run of the list-all or the filter-by-field command for a path that names no
  collection: an error of the pre-run reaches \<open>main\<close>; after a pre-run without error the
  process panics, the client being the only thing it asked of the store.
\<close>

lemma main_nil_collection:
  assumes "initConfig e (inv_settings call) w = (Return v, w0)"
    and "command_Args (inv_command call) (inv_args call) = None"
    and "inv_command call \<noteq> Get" and "collection e v = None"
  shows "(\<exists>err w1. preRunE e v (inv_flags call) w0 = (Some err, w1)
            \<and> step_failure e v (inv_command call) (inv_args call) (inv_flags call) err
            \<and> has_context err
            \<and> main e call w = (Exit 1, Println (Error err) w1))
         \<or> (\<exists>w1 w'. preRunE e v (inv_flags call) w0 = (None, w1)
            \<and> main e call w = (Panic nil_dereference, w')
            \<and> calls w' = calls w @ [NewClient (GetString v ''project'')])"
proof -
  let ?fl = "inv_flags call"
  from initConfig_calls [OF assms(1)] have c0: "calls w0 = calls w" by simp
  obtain rp w1 where pre: "preRunE e v ?fl w0 = (rp, w1)"
    by (cases "preRunE e v ?fl w0") auto
  note po = preRunE_outcome [OF pre, of "inv_command call" "inv_args call"]
  show ?thesis
  proof (cases rp)
    case (Some err)
    with po have h: "step_failure e v (inv_command call) (inv_args call) ?fl err"
      by simp
    have "main e call w = (Exit 1, Println (Error err) w1)"
      using assms(1,2) pre Some by (simp add: main_def Execute_def)
    with h pre Some show ?thesis
      by (simp add: step_failure_context)
  next
    case None
    with po have c1: "calls w1 = calls w0 @ [NewClient (GetString v ''project'')]"
      by simp
    from RunE_nil_collection [OF assms(2,3,4), of ?fl w1] obtain w' where
      "RunE (inv_command call) e v ?fl (inv_args call) w1 = (Panic nil_dereference, w')"
      and "calls w' = calls w1"
      by blast
    with assms(1,2) pre None c1 c0
    have "main e call w = (Panic nil_dereference, w')
            \<and> calls w' = calls w @ [NewClient (GetString v ''project'')]"
      by (simp add: main_def Execute_def)
    with pre None show ?thesis by blast
  qed
qed

text \<open>
  C7, as the spec states it, does not hold. A configuration file that cannot be read
  makes \<open>initConfig\<close> panic, and a failed lookup of the home directory makes it print
  the bare error, without a context message, and exit with status 1 on the spot:
  \<open>Execute\<close> never returns to \<open>main\<close>. After the configuration has loaded, the list-all
  command for the path \<open>users/alice\<close>, for which the client has no collection, panics
  on the nil reference.
\<close>

theorem error_propagation_counterexample:
  "main (sample_env\<lparr>ReadInConfig := (\<lambda>name paths. ReadError (Errorf ''yaml: did not find expected key''))\<rparr>)
      \<lparr>inv_command = Documents, inv_args = [], inv_flags = sample_flags 100 False,
       inv_settings = no_flags\<rparr> start =
     (Panic (''Fatal error config file: yaml: did not find expected key '' @ [CHR 0x0A]), start)
   \<and> Execute (sample_env\<lparr>homedir_Dir := Inl (Errorf ''missing home directory'')\<rparr>)
      \<lparr>inv_command = Documents, inv_args = [], inv_flags = sample_flags 100 False,
       inv_settings = no_flags\<rparr> start =
     (Exit 1,
      \<lparr>stdout = [''missing home directory'' @ [CHR 0x0A]], calls = [], verbose = False\<rparr>)
   \<and> \<not> has_context (Errorf ''missing home directory'')
   \<and> main sample_env
      \<lparr>inv_command = Documents, inv_args = [], inv_flags = sample_flags 100 False,
       inv_settings = no_flags\<lparr>src_collection := Some ''users/alice''\<rparr>\<rparr> start =
     (Panic nil_dereference,
      \<lparr>stdout = [], calls = [NewClient ''demo-project''], verbose = False\<rparr>)"
  by (simp add: main_def Execute_def initConfig_def preRunE_def validateRequiredParams_def
      initFirestoreClient_def Wrap_def documents_def sample_defs world_defs)

text \<open>
  C7, amended. The errors of configuration loading are handled inside \<open>initConfig\<close>
  and do not reach \<open>main\<close>: a failed lookup of the home directory prints the bare error
  and exits with status 1, a configuration file that is not found only prints a notice
  and the run goes on, and any other failure to read the file panics. Take a run that
  got past \<open>initConfig\<close> (and cobra's check of the arguments).

  When the command is \<open>get\<close>, or the client has a collection for the collection path,
  nothing panics or exits early: \<open>Execute\<close> returns to \<open>main\<close>. An error it returns is
  the error of a step that failed (validation, a flag lookup, the construction of the
  client, the fetch, the iteration or the serialization) wrapped in the context message
  of that step, and \<open>main\<close> prints it and exits with status 1. It returns no error only
  when every step performed succeeded, and then the status is 0. No step is repeated:
  each call to the store other than \<open>Next\<close> is made at most once, and \<open>Next\<close> at most
  once for each element of the stream and once for its end.

  When the command is the list-all or the filter-by-field command and the client has
  no collection for the path, an error of the pre-run reaches \<open>main\<close> in the same way;
  after a pre-run without error the process panics on the nil reference, before a stream
  is opened.
\<close>

theorem errors_reach_main_after_configuration:
  "(\<forall>err. homedir_Dir e = Inl err \<longrightarrow>
       Execute e call w = (Exit 1, Println (Error err) w))
   \<and> (\<forall>home err.
         homedir_Dir e = Inr home
         \<and> ReadInConfig e ''firestore-cli'' [''.'', home, home @ ''/.config/firestore-cli'']
             = ReadError err \<longrightarrow>
         Execute e call w =
           (Panic (''Fatal error config file: '' @ Error err @ '' '' @ [CHR 0x0A]), w))
   \<and> (\<forall>home.
         homedir_Dir e = Inr home
         \<and> ReadInConfig e ''firestore-cli'' [''.'', home, home @ ''/.config/firestore-cli'']
             = ConfigFileNotFoundError \<longrightarrow>
         initConfig e (inv_settings call) w =
           (Return \<lparr>bound_flags = inv_settings call, config_file = None\<rparr>,
            Print configNotFound w))
   \<and> (\<forall>v w0.
         initConfig e (inv_settings call) w = (Return v, w0)
         \<and> command_Args (inv_command call) (inv_args call) = None
         \<and> (inv_command call = Get \<or> collection e v \<noteq> None) \<longrightarrow>
         (\<exists>r w' t.
            Execute e call w = (Return r, w') \<and> calls w' = calls w @ t
            \<and> distinct (filter (\<lambda>c. c \<noteq> IterNext) t)
            \<and> count_list t IterNext
                 \<le> Suc (length (opened_stream e v (inv_command call) (inv_args call)))
            \<and> (case r of
                  Some err \<Rightarrow>
                    step_failure e v (inv_command call) (inv_args call) (inv_flags call) err
                    \<and> has_context err
                    \<and> main e call w = (Exit 1, Println (Error err) w')
                | None \<Rightarrow>
                    all_steps_ok e v call (count_list t IterNext)
                    \<and> main e call w = (Return (), w'))))
   \<and> (\<forall>v w0.
         initConfig e (inv_settings call) w = (Return v, w0)
         \<and> command_Args (inv_command call) (inv_args call) = None
         \<and> inv_command call \<noteq> Get \<and> collection e v = None \<longrightarrow>
         (\<exists>err w1. preRunE e v (inv_flags call) w0 = (Some err, w1)
            \<and> step_failure e v (inv_command call) (inv_args call) (inv_flags call) err
            \<and> has_context err
            \<and> main e call w = (Exit 1, Println (Error err) w1))
         \<or> (\<exists>w1 w'. preRunE e v (inv_flags call) w0 = (None, w1)
            \<and> main e call w = (Panic nil_dereference, w')
            \<and> calls w' = calls w @ [NewClient (GetString v ''project'')]))"
proof (intro conjI allI impI)
  fix err
  assume "homedir_Dir e = Inl err"
  then show "Execute e call w = (Exit 1, Println (Error err) w)"
    by (simp add: Execute_def initConfig_def)
next
  fix home err
  assume "homedir_Dir e = Inr home
         \<and> ReadInConfig e ''firestore-cli'' [''.'', home, home @ ''/.config/firestore-cli'']
             = ReadError err"
  then show "Execute e call w =
           (Panic (''Fatal error config file: '' @ Error err @ '' '' @ [CHR 0x0A]), w)"
    by (simp add: Execute_def initConfig_def)
next
  fix home
  assume "homedir_Dir e = Inr home
         \<and> ReadInConfig e ''firestore-cli'' [''.'', home, home @ ''/.config/firestore-cli'']
             = ConfigFileNotFoundError"
  then show "initConfig e (inv_settings call) w =
           (Return \<lparr>bound_flags = inv_settings call, config_file = None\<rparr>,
            Print configNotFound w)"
    by (simp add: initConfig_def)
next
  fix v w0
  assume a: "initConfig e (inv_settings call) w = (Return v, w0)
         \<and> command_Args (inv_command call) (inv_args call) = None
         \<and> (inv_command call = Get \<or> collection e v \<noteq> None)"
  from a have i: "initConfig e (inv_settings call) w = (Return v, w0)"
    and g: "command_Args (inv_command call) (inv_args call) = None"
    and n: "inv_command call = Get \<or> collection e v \<noteq> None"
    by simp_all
  from Execute_outcome [OF i g n] obtain r w' t where
    ex: "Execute e call w = (Return r, w')" and c: "calls w' = calls w @ t"
    and d: "distinct (filter (\<lambda>c. c \<noteq> IterNext) t)"
    and k: "count_list t IterNext
                 \<le> Suc (length (opened_stream e v (inv_command call) (inv_args call)))"
    and o: "case r of
              Some err \<Rightarrow>
                step_failure e v (inv_command call) (inv_args call) (inv_flags call) err
            | None \<Rightarrow> all_steps_ok e v call (count_list t IterNext)"
    by blast
  have "case r of
                  Some err \<Rightarrow>
                    step_failure e v (inv_command call) (inv_args call) (inv_flags call) err
                    \<and> has_context err
                    \<and> main e call w = (Exit 1, Println (Error err) w')
                | None \<Rightarrow>
                    all_steps_ok e v call (count_list t IterNext)
                    \<and> main e call w = (Return (), w')"
    using o ex by (auto simp: main_def step_failure_context split: option.splits)
  with ex c d k show "\<exists>r w' t.
            Execute e call w = (Return r, w') \<and> calls w' = calls w @ t
            \<and> distinct (filter (\<lambda>c. c \<noteq> IterNext) t)
            \<and> count_list t IterNext
                 \<le> Suc (length (opened_stream e v (inv_command call) (inv_args call)))
            \<and> (case r of
                  Some err \<Rightarrow>
                    step_failure e v (inv_command call) (inv_args call) (inv_flags call) err
                    \<and> has_context err
                    \<and> main e call w = (Exit 1, Println (Error err) w')
                | None \<Rightarrow>
                    all_steps_ok e v call (count_list t IterNext)
                    \<and> main e call w = (Return (), w'))"
    by blast
next
  fix v w0
  assume a: "initConfig e (inv_settings call) w = (Return v, w0)
         \<and> command_Args (inv_command call) (inv_args call) = None
         \<and> inv_command call \<noteq> Get \<and> collection e v = None"
  from a have i: "initConfig e (inv_settings call) w = (Return v, w0)"
    and g: "command_Args (inv_command call) (inv_args call) = None"
    and n: "inv_command call \<noteq> Get" "collection e v = None"
    by simp_all
  from main_nil_collection [OF i g n]
  show "(\<exists>err w1. preRunE e v (inv_flags call) w0 = (Some err, w1)
            \<and> step_failure e v (inv_command call) (inv_args call) (inv_flags call) err
            \<and> has_context err
            \<and> main e call w = (Exit 1, Println (Error err) w1))
         \<or> (\<exists>w1 w'. preRunE e v (inv_flags call) w0 = (None, w1)
            \<and> main e call w = (Panic nil_dereference, w')
            \<and> calls w' = calls w @ [NewClient (GetString v ''project'')])" .
qed

text \<open>
  A client that cannot be built, and a stream that fails at its second fetch: each error
  is printed under its context message by \<open>main\<close>, with status 1. With a collection
  path that names a document, a missing project is still reported by \<open>main\<close>.
\<close>

theorem errors_reach_main_after_configuration_witness:
  "main (sample_env\<lparr>firestore_NewClient := (\<lambda>project. Some (Errorf ''no credentials''))\<rparr>)
      \<lparr>inv_command = Get, inv_args = [''alice''], inv_flags = sample_flags 100 False,
       inv_settings = no_flags\<rparr> start =
     (Exit 1,
      \<lparr>stdout = [''unable to create firestore client: unable to create firestore client: no credentials''
                 @ [CHR 0x0A]],
       calls = [NewClient ''demo-project''], verbose = False\<rparr>)
   \<and> main (sample_env\<lparr>Collection_Documents :=
              (\<lambda>coll. [Yield ''alice'', Fail (Errorf ''deadline exceeded''), Yield ''carol''])\<rparr>)
      \<lparr>inv_command = Documents, inv_args = [], inv_flags = sample_flags 100 False,
       inv_settings = no_flags\<rparr> start =
     (Exit 1,
      \<lparr>stdout = [''{alice}'' @ [CHR 0x0A],
                 ''unable to iterate documents: deadline exceeded'' @ [CHR 0x0A]],
       calls = [NewClient ''demo-project'', OpenDocuments ''users'', IterNext, IterNext, IterStop],
       verbose = False\<rparr>)
   \<and> main (sample_env\<lparr>ReadInConfig := (\<lambda>name paths. ConfigFileNotFoundError)\<rparr>)
      \<lparr>inv_command = Documents, inv_args = [], inv_flags = sample_flags 100 False,
       inv_settings = no_flags\<lparr>src_collection := Some ''users/alice''\<rparr>\<rparr> start =
     (Exit 1,
      \<lparr>stdout = [configNotFound,
                 ''unable to validate required params: project undefined'' @ [CHR 0x0A]],
       calls = [], verbose = False\<rparr>)"
proof -
  let ?e1 = "sample_env\<lparr>firestore_NewClient := (\<lambda>project. Some (Errorf ''no credentials''))\<rparr>"
  let ?c1 = "\<lparr>inv_command = Get, inv_args = [''alice''], inv_flags = sample_flags 100 False,
       inv_settings = no_flags\<rparr>"
  let ?e2 = "sample_env\<lparr>Collection_Documents :=
              (\<lambda>coll. [Yield ''alice'', Fail (Errorf ''deadline exceeded''), Yield ''carol''])\<rparr>"
  let ?c2 = "\<lparr>inv_command = Documents, inv_args = [], inv_flags = sample_flags 100 False,
       inv_settings = no_flags\<rparr>"
  let ?e3 = "sample_env\<lparr>ReadInConfig := (\<lambda>name paths. ConfigFileNotFoundError)\<rparr>"
  let ?c3 = "\<lparr>inv_command = Documents, inv_args = [], inv_flags = sample_flags 100 False,
       inv_settings = no_flags\<lparr>src_collection := Some ''users/alice''\<rparr>\<rparr>"
  let ?v3 = "\<lparr>bound_flags = no_flags\<lparr>src_collection := Some ''users/alice''\<rparr>,
              config_file = None\<rparr>"
  let ?w1 = "\<lparr>stdout = [], calls = [NewClient ''demo-project''], verbose = False\<rparr>"
  let ?w2 = "\<lparr>stdout = [''{alice}'' @ [CHR 0x0A]],
       calls = [NewClient ''demo-project'', OpenDocuments ''users'', IterNext, IterNext, IterStop],
       verbose = False\<rparr>"
  let ?w3 = "\<lparr>stdout = [configNotFound], calls = [], verbose = False\<rparr>"
  let ?err1 = "Wrapped ''unable to create firestore client''
                 (Wrapped ''unable to create firestore client'' (Errorf ''no credentials''))"
  let ?err2 = "Wrapped ''unable to iterate documents'' (Errorf ''deadline exceeded'')"
  let ?err3 = "Wrapped ''unable to validate required params'' (Errorf ''project undefined'')"
  have i1: "initConfig ?e1 (inv_settings ?c1) start = (Return sample_viper, start)
            \<and> command_Args (inv_command ?c1) (inv_args ?c1) = None
            \<and> (inv_command ?c1 = Get \<or> collection ?e1 sample_viper \<noteq> None)"
    and i2: "initConfig ?e2 (inv_settings ?c2) start = (Return sample_viper, start)
            \<and> command_Args (inv_command ?c2) (inv_args ?c2) = None
            \<and> (inv_command ?c2 = Get \<or> collection ?e2 sample_viper \<noteq> None)"
    and i3: "initConfig ?e3 (inv_settings ?c3) start = (Return ?v3, ?w3)
            \<and> command_Args (inv_command ?c3) (inv_args ?c3) = None
            \<and> inv_command ?c3 \<noteq> Get \<and> collection ?e3 ?v3 = None"
    by (simp_all add: initConfig_def ExactArgs_def sample_defs world_defs)
  have x1: "Execute ?e1 ?c1 start = (Return (Some ?err1), ?w1)"
    by (simp add: Execute_def initConfig_def preRunE_def initFirestoreClient_def
        validateRequiredParams_def ExactArgs_def Wrap_def sample_defs world_defs)
  have x2: "Execute ?e2 ?c2 start = (Return (Some ?err2), ?w2)"
    by (simp add: Execute_def initConfig_def preRunE_def initFirestoreClient_def
        validateRequiredParams_def documents_def iterate_def Wrap_def sample_defs world_defs)
  have x3: "preRunE ?e3 ?v3 (inv_flags ?c3) ?w3 = (Some ?err3, ?w3)"
    by (simp add: preRunE_def validateRequiredParams_def Wrap_def sample_defs)
  from errors_reach_main_after_configuration [of ?e1 ?c1 start] i1 x1
  have 1: "main ?e1 ?c1 start = (Exit 1, Println (Error ?err1) ?w1)"
    by auto
  from errors_reach_main_after_configuration [of ?e2 ?c2 start] i2 x2
  have 2: "main ?e2 ?c2 start = (Exit 1, Println (Error ?err2) ?w2)"
    by auto
  from errors_reach_main_after_configuration [of ?e3 ?c3 start] i3 x3
  have 3: "main ?e3 ?c3 start = (Exit 1, Println (Error ?err3) ?w3)"
    by auto
  from 1 2 3 show ?thesis
    by (simp add: world_defs)
qed

section \<open>Reading back what the encoder writes\<close>

subsection \<open>Integers\<close>

lemma decimal_value_snoc:
  "decimal_value (ds @ [c]) = 10 * decimal_value ds + (of_char c - 48)"
  by (simp add: decimal_value_def)

lemma digit_char:
  assumes "d < 10"
  shows "is_decimal_digit (char_of (48 + d))" and "(of_char (char_of (48 + d)) :: nat) - 48 = d"
proof -
  have "(of_char (char_of (48 + d)) :: nat) = 48 + d"
    using assms by simp
  then show "is_decimal_digit (char_of (48 + d))" and "(of_char (char_of (48 + d)) :: nat) - 48 = d"
    using assms by (simp_all add: is_decimal_digit_code)
qed

lemma utoa_digits:
  "utoa n \<noteq> [] \<and> list_all is_decimal_digit (utoa n) \<and> decimal_value (utoa n) = n"
proof (induction n rule: utoa.induct)
  case (1 n)
  show ?case
  proof (cases "n < 10")
    case True
    with digit_char [of n] show ?thesis
      by (subst (1 2 3) utoa.simps) (simp add: decimal_value_def)
  next
    case False
    have d: "n mod 10 < 10" by simp
    from False "1.IH" digit_char [OF d] show ?thesis
      by (subst (1 2 3) utoa.simps) (simp add: decimal_value_snoc)
  qed
qed

lemma json_int_itoa: "json_int (itoa i) = Some i"
proof (cases "i < 0")
  case True
  with utoa_digits [of "nat (- i)"] show ?thesis
    by (simp add: json_int_def itoa_def)
next
  case False
  from utoa_digits [of "nat i"] obtain c cs where u: "utoa (nat i) = c # cs"
    and "is_decimal_digit c"
    by (cases "utoa (nat i)") auto
  then have "c \<noteq> CHR ''-''"
    by (auto simp: is_decimal_digit_def)
  with False u utoa_digits [of "nat i"] show ?thesis
    by (simp add: json_int_def itoa_def)
qed

subsection \<open>The lexer on the parts of an encoding\<close>

lemma lexm_spaces:
  "list_all is_space ws \<Longrightarrow> lexm Outside (ws @ rest) = lexm Outside rest"
  by (induction ws) simp_all

lemma lexm_string_body:
  "lexm (InString acc) (concat (map escape_char s) @ CHR 0x22 # rest) =
     emit (Some (TString (acc @ s))) (lexm Outside rest)"
proof (induction s arbitrary: acc)
  case Nil
  show ?case by simp
next
  case (Cons c s)
  have "lexm (InString acc) (escape_char c @ tl) = lexm (InString (acc @ [c])) tl" for tl
    by (simp add: escape_char_def unescape_char_def)
  with Cons.IH [of "acc @ [c]"] show ?case by simp
qed

lemma lexm_quote:
  "lexm Outside (quote s @ rest) = emit (Some (TString s)) (lexm Outside rest)"
  using lexm_string_body [of "[]" s rest] by (simp add: quote_def is_space_def)

lemma emit_prepend: "emit (Some t) r = prepend [t] r"
  by (simp add: emit_def prepend_def split: option.splits)

lemma prepend_prepend: "prepend a (prepend b r) = prepend (a @ b) r"
  by (simp add: prepend_def split: option.splits)

lemma punctuation_not_word:
  "punctuation c = Some t \<Longrightarrow> \<not> is_space c \<and> c \<noteq> CHR 0x22"
  by (auto simp: punctuation_def is_space_def split: if_splits)

lemma lexm_word_chars:
  "list_all word_char u \<Longrightarrow> lexm (Bare w) (u @ rest) = lexm (Bare (w @ u)) rest"
  by (induction u arbitrary: w) (simp_all add: word_char_def)

lemma lexm_word_end:
  assumes "delimited rest"
  shows "lexm (Bare w) rest = emit (bare_token w) (lexm Outside rest)"
proof (cases rest)
  case Nil
  then show ?thesis by simp
next
  case (Cons c cs)
  show ?thesis
  proof (cases "is_space c")
    case True
    with Cons show ?thesis by simp
  next
    case False
    with assms Cons obtain t where t: "punctuation c = Some t"
      by (auto simp: delimited_def)
    with punctuation_not_word [OF t] Cons show ?thesis by simp
  qed
qed

lemma lexm_word:
  assumes "u \<noteq> []" and "list_all word_char u" and "delimited rest"
  shows "lexm Outside (u @ rest) = emit (bare_token u) (lexm Outside rest)"
proof -
  from assms(1) obtain c cs where u: "u = c # cs" by (cases u) auto
  with assms(2) have c: "word_char c" and cs: "list_all word_char cs" by simp_all
  from c have "lexm Outside (u @ rest) = lexm (Bare [c]) (cs @ rest)"
    by (simp add: u word_char_def)
  also have "\<dots> = lexm (Bare u) rest"
    using lexm_word_chars [OF cs] by (simp add: u)
  also have "\<dots> = emit (bare_token u) (lexm Outside rest)"
    by (rule lexm_word_end [OF assms(3)])
  finally show ?thesis .
qed

lemma decimal_digit_word_char: "is_decimal_digit c \<Longrightarrow> word_char c"
  by (auto simp: is_decimal_digit_def word_char_def is_space_def punctuation_def)

lemma itoa_word: "itoa i \<noteq> [] \<and> list_all word_char (itoa i)"
proof -
  have "list_all word_char (utoa n)" and "utoa n \<noteq> []" for n
    using utoa_digits [of n] by (auto simp: list_all_iff decimal_digit_word_char)
  moreover have "word_char CHR ''-''"
    by (simp add: word_char_def is_space_def punctuation_def)
  ultimately show ?thesis
    by (simp add: itoa_def)
qed

lemma lexm_int:
  "delimited rest \<Longrightarrow> lexm Outside (itoa i @ rest) = prepend [TInt i] (lexm Outside rest)"
  using itoa_word [of i] lexm_word [of "itoa i" rest]
  by (simp add: bare_token_def json_int_itoa emit_prepend)

lemma lexm_literals:
  assumes "delimited rest"
  shows "lexm Outside (''null'' @ rest) = prepend [TNull] (lexm Outside rest)"
    and "lexm Outside (''true'' @ rest) = prepend [TBool True] (lexm Outside rest)"
    and "lexm Outside (''false'' @ rest) = prepend [TBool False] (lexm Outside rest)"
proof -
  have w: "list_all word_char ''null''" "list_all word_char ''true''" "list_all word_char ''false''"
    by (simp_all add: word_char_def is_space_def punctuation_def)
  have b: "bare_token ''null'' = Some TNull" "bare_token ''true'' = Some (TBool True)"
    "bare_token ''false'' = Some (TBool False)"
    by (simp_all add: bare_token_def json_int_def is_decimal_digit_def)
  from lexm_word [OF _ w(1) assms] b(1)
  show "lexm Outside (''null'' @ rest) = prepend [TNull] (lexm Outside rest)"
    by (simp add: emit_prepend)
  from lexm_word [OF _ w(2) assms] b(2)
  show "lexm Outside (''true'' @ rest) = prepend [TBool True] (lexm Outside rest)"
    by (simp add: emit_prepend)
  from lexm_word [OF _ w(3) assms] b(3)
  show "lexm Outside (''false'' @ rest) = prepend [TBool False] (lexm Outside rest)"
    by (simp add: emit_prepend)
qed

lemma delimited_punctuation:
  "list_all is_space ws \<Longrightarrow> punctuation c \<noteq> None \<Longrightarrow> delimited (ws @ c # rest)"
  by (cases ws) (simp_all add: delimited_def)

text \<open>Items written with commas between them, each of which the lexer reads as its tokens.\<close>

lemma lexm_separated:
  assumes "xs \<noteq> []" and "list_all is_space ws" and "delimited rest"
    and "\<And>x rest. x \<in> set xs \<Longrightarrow> delimited rest \<Longrightarrow>
           lexm Outside (f x @ rest) = prepend (g x) (lexm Outside rest)"
  shows "lexm Outside (separated ('','' @ ws) (map f xs) @ rest) =
           prepend (separated [Comma] (map g xs)) (lexm Outside rest)"
  using assms(1,4)
proof (induction xs rule: list_nonempty_induct)
  case (single x)
  then show ?case using assms(3) by simp
next
  case (cons x xs)
  then obtain y ys where xs: "xs = y # ys" by (cases xs) auto
  let ?tail = "separated ('','' @ ws) (map f xs) @ rest"
  have d: "delimited ('','' @ ws @ ?tail)"
    by (simp add: delimited_def punctuation_def)
  have "lexm Outside (separated ('','' @ ws) (map f (x # xs)) @ rest) =
        lexm Outside (f x @ '','' @ ws @ ?tail)"
    by (simp add: xs)
  also have "\<dots> = prepend (g x) (lexm Outside ('','' @ ws @ ?tail))"
    using cons.prems [OF _ d] by simp
  also have "lexm Outside ('','' @ ws @ ?tail) = prepend [Comma] (lexm Outside (ws @ ?tail))"
    by (simp add: is_space_def punctuation_def emit_prepend)
  also have "lexm Outside (ws @ ?tail) = lexm Outside ?tail"
    by (rule lexm_spaces [OF assms(2)])
  also have "lexm Outside ?tail = prepend (separated [Comma] (map g xs)) (lexm Outside rest)"
    using cons.IH cons.prems by simp
  finally show ?case
    by (simp add: prepend_prepend xs)
qed

text \<open>
  The lexer reads an encoding, in any layout of spaces, as the tokens of the value.
\<close>

lemma lexm_render:
  assumes "space_layout L"
  shows "supported v \<Longrightarrow> delimited rest \<Longrightarrow>
           lexm Outside (render L n v @ rest) = prepend (tokens v) (lexm Outside rest)"
proof (induction v arbitrary: n rest)
  case JNull
  with lexm_literals(1) [of rest] show ?case by simp
next
  case (JBool b)
  with lexm_literals(2,3) [of rest] show ?case by (cases b) simp_all
next
  case (JInt i)
  then show ?case by (simp add: lexm_int)
next
  case (JString s)
  then show ?case by (simp add: lexm_quote emit_prepend)
next
  case (JArray xs)
  show ?case
  proof (cases "xs = []")
    case True
    then show ?thesis
      by (simp add: is_space_def punctuation_def emit_prepend prepend_prepend)
  next
    case False
    let ?ao = "after_open L (Suc n)" and ?ac = "after_comma L (Suc n)"
      and ?bc = "before_close L n"
    from assms have sp: "list_all is_space ?ao" "list_all is_space ?ac" "list_all is_space ?bc"
      by (simp_all add: space_layout_def)
    let ?close = "?bc @ '']'' @ rest"
    have dc: "delimited ?close"
      using delimited_punctuation [OF sp(3), of "CHR '']''" rest] by (simp add: punctuation_def)
    have items: "lexm Outside (render L (Suc n) x @ r) = prepend (tokens x) (lexm Outside r)"
      if "x \<in> set xs" and "delimited r" for x r
      using JArray.IH [OF that(1) _ that(2)] JArray.prems(1) that(1)
      by (simp add: list_all_iff)
    have "lexm Outside (render L n (JArray xs) @ rest) =
          lexm Outside (''['' @ ?ao @ separated ('','' @ ?ac) (map (render L (Suc n)) xs) @ ?close)"
      using False by simp
    also have "\<dots> = prepend [LBrack]
        (lexm Outside (?ao @ separated ('','' @ ?ac) (map (render L (Suc n)) xs) @ ?close))"
      by (simp add: is_space_def punctuation_def emit_prepend)
    also have "lexm Outside (?ao @ separated ('','' @ ?ac) (map (render L (Suc n)) xs) @ ?close) =
        lexm Outside (separated ('','' @ ?ac) (map (render L (Suc n)) xs) @ ?close)"
      by (rule lexm_spaces [OF sp(1)])
    also have "\<dots> = prepend (separated [Comma] (map tokens xs)) (lexm Outside ?close)"
      by (rule lexm_separated [OF False sp(2) dc items])
    also have "lexm Outside ?close = lexm Outside ('']'' @ rest)"
      by (rule lexm_spaces [OF sp(3)])
    also have "\<dots> = prepend [RBrack] (lexm Outside rest)"
      by (simp add: is_space_def punctuation_def emit_prepend)
    finally show ?thesis
      by (simp add: prepend_prepend)
  qed
next
  case (JObject kvs)
  show ?case
  proof (cases "kvs = []")
    case True
    then show ?thesis
      by (simp add: is_space_def punctuation_def emit_prepend prepend_prepend)
  next
    case False
    let ?ao = "after_open L (Suc n)" and ?ac = "after_comma L (Suc n)"
      and ?bc = "before_close L n" and ?co = "after_colon L"
    let ?f = "\<lambda>kv. quote (fst kv) @ '':'' @ ?co @ render L (Suc n) (snd kv)"
    let ?g = "\<lambda>kv. TString (fst kv) # Colon # tokens (snd kv)"
    from assms have sp: "list_all is_space ?ao" "list_all is_space ?ac" "list_all is_space ?bc"
      "list_all is_space ?co"
      by (simp_all add: space_layout_def)
    let ?close = "?bc @ ''}'' @ rest"
    have dc: "delimited ?close"
      using delimited_punctuation [OF sp(3), of "CHR ''}''" rest] by (simp add: punctuation_def)
    have items: "lexm Outside (?f kv @ r) = prepend (?g kv) (lexm Outside r)"
      if "kv \<in> set kvs" and "delimited r" for kv r
    proof -
      obtain k v where kv: "kv = (k, v)" by (cases kv)
      with that(1) JObject.prems(1) have s: "supported v"
        by (auto simp: list_all_iff)
      have v: "lexm Outside (render L (Suc n) v @ r) = prepend (tokens v) (lexm Outside r)"
        using JObject.IH [OF that(1) _ s that(2)] kv by simp
      have "lexm Outside (?f kv @ r) =
            prepend [TString k] (lexm Outside ('':'' @ ?co @ render L (Suc n) v @ r))"
        using lexm_quote [of k "'':'' @ ?co @ render L (Suc n) v @ r"]
        by (simp add: kv emit_prepend)
      also have "lexm Outside ('':'' @ ?co @ render L (Suc n) v @ r) =
            prepend [Colon] (lexm Outside (?co @ render L (Suc n) v @ r))"
        by (simp add: is_space_def punctuation_def emit_prepend)
      also have "lexm Outside (?co @ render L (Suc n) v @ r) = lexm Outside (render L (Suc n) v @ r)"
        by (rule lexm_spaces [OF sp(4)])
      also note v
      finally show ?thesis
        by (simp add: prepend_prepend kv)
    qed
    have "lexm Outside (render L n (JObject kvs) @ rest) =
          lexm Outside (''{'' @ ?ao @ separated ('','' @ ?ac) (map ?f kvs) @ ?close)"
      using False by simp
    also have "\<dots> = prepend [LBrace]
        (lexm Outside (?ao @ separated ('','' @ ?ac) (map ?f kvs) @ ?close))"
      by (simp add: is_space_def punctuation_def emit_prepend)
    also have "lexm Outside (?ao @ separated ('','' @ ?ac) (map ?f kvs) @ ?close) =
        lexm Outside (separated ('','' @ ?ac) (map ?f kvs) @ ?close)"
      by (rule lexm_spaces [OF sp(1)])
    also have "\<dots> = prepend (separated [Comma] (map ?g kvs)) (lexm Outside ?close)"
      by (rule lexm_separated [OF False sp(2) dc items])
    also have "lexm Outside ?close = lexm Outside (''}'' @ rest)"
      by (rule lexm_spaces [OF sp(3)])
    also have "\<dots> = prepend [RBrace] (lexm Outside rest)"
      by (simp add: is_space_def punctuation_def emit_prepend)
    finally show ?thesis
      by (simp add: prepend_prepend)
  qed
next
  case JUnsupported
  then show ?case by simp
qed

subsection \<open>The reader on the tokens of a value\<close>

lemma run_append:
  "run s (a @ b) = (case run s a of None \<Rightarrow> None | Some s' \<Rightarrow> run s' b)"
  by (induction a arbitrary: s) (simp_all split: option.splits)

lemma step_string_value:
  "expects_value st \<Longrightarrow> step (Reading st) (TString s) = push (JString s) st"
  by (induction st rule: expects_value.induct) simp_all

text \<open>
  The items of an array or an object, with commas between them: when the reader takes
  each item from a frame that waits for an item to the frame that holds it, it takes
  them all.
\<close>

lemma run_separated:
  assumes "xs \<noteq> []"
    and "\<And>x acc. x \<in> set xs \<Longrightarrow>
           run (Reading (waiting acc # st)) (g x) = Some (Reading (holding (acc @ [x]) # st))"
    and "\<And>acc. step (Reading (holding acc # st)) Comma = Some (Reading (waiting acc # st))"
  shows "run (Reading (waiting acc # st)) (separated [Comma] (map g xs)) =
           Some (Reading (holding (acc @ xs) # st))"
  using assms(1,2)
proof (induction xs arbitrary: acc rule: list_nonempty_induct)
  case (single x)
  then show ?case by simp
next
  case (cons x xs)
  then obtain y ys where xs: "xs = y # ys" by (cases xs) auto
  have "run (Reading (waiting acc # st)) (separated [Comma] (map g (x # xs))) =
        run (Reading (waiting acc # st)) (g x @ Comma # separated [Comma] (map g xs))"
    by (simp add: xs)
  also have "\<dots> = run (Reading (holding (acc @ [x]) # st)) (Comma # separated [Comma] (map g xs))"
    using cons.prems [of x acc] by (simp add: run_append)
  also have "\<dots> = run (Reading (waiting (acc @ [x]) # st)) (separated [Comma] (map g xs))"
    by (simp add: assms(3) del: step.simps)
  also have "\<dots> = Some (Reading (holding ((acc @ [x]) @ xs) # st))"
    using cons.IH [of "acc @ [x]"] cons.prems by simp
  finally show ?case by simp
qed

lemma run_tokens:
  "supported v \<Longrightarrow> expects_value st \<Longrightarrow> run (Reading st) (tokens v) = push v st"
proof (induction v arbitrary: st)
  case JNull
  then show ?case by (simp split: option.splits)
next
  case (JBool b)
  then show ?case by (simp split: option.splits)
next
  case (JInt i)
  then show ?case by (simp split: option.splits)
next
  case (JString s)
  then show ?case by (simp add: step_string_value del: step.simps split: option.splits)
next
  case (JArray xs)
  show ?case
  proof (cases "xs = []")
    case True
    with JArray.prems show ?thesis by (simp split: option.splits)
  next
    case False
    have first: "run (Reading (ArrOpen # st)) (tokens x) = Some (Reading (ArrVal [x] # st))"
      if "x \<in> set xs" for x
      using JArray.IH [OF that, of "ArrOpen # st"] JArray.prems(1) that
      by (simp add: list_all_iff)
    have item: "run (Reading (ArrSep acc # st)) (tokens x) = Some (Reading (ArrVal (acc @ [x]) # st))"
      if "x \<in> set xs" for x acc
      using JArray.IH [OF that, of "ArrSep acc # st"] JArray.prems(1) that
      by (simp add: list_all_iff)
    have comma: "step (Reading (ArrVal acc # st)) Comma = Some (Reading (ArrSep acc # st))" for acc
      by simp
    from False obtain x xs' where xs: "xs = x # xs'" by (cases xs) auto
    have elems: "run (Reading (ArrOpen # st)) (separated [Comma] (map tokens xs)) =
                   Some (Reading (ArrVal xs # st))"
    proof (cases "xs' = []")
      case True
      with first [of x] xs show ?thesis by simp
    next
      case False
      then obtain y ys where xs': "xs' = y # ys" by (cases xs') auto
      have "run (Reading (ArrOpen # st)) (separated [Comma] (map tokens xs)) =
            run (Reading (ArrOpen # st)) (tokens x @ Comma # separated [Comma] (map tokens xs'))"
        by (simp add: xs xs')
      also have "\<dots> = run (Reading (ArrSep [x] # st)) (separated [Comma] (map tokens xs'))"
        using first [of x] xs by (simp add: run_append)
      also have "\<dots> = Some (Reading (ArrVal ([x] @ xs') # st))"
        by (rule run_separated [OF False _ comma], rule item) (simp add: xs)
      finally show ?thesis by (simp add: xs)
    qed
    have "run (Reading st) (tokens (JArray xs)) =
          run (Reading (ArrOpen # st)) (separated [Comma] (map tokens xs) @ [RBrack])"
      using JArray.prems(2) by simp
    also have "\<dots> = run (Reading (ArrVal xs # st)) [RBrack]"
      using elems by (simp add: run_append)
    also have "\<dots> = push (JArray xs) st"
      by (simp split: option.splits)
    finally show ?thesis .
  qed
next
  case (JObject kvs)
  show ?case
  proof (cases "kvs = []")
    case True
    with JObject.prems show ?thesis by (simp split: option.splits)
  next
    case False
    let ?g = "\<lambda>kv. TString (fst kv) # Colon # tokens (snd kv)"
    have val: "run (Reading (ObjColon acc k # st)) (tokens v) =
                 Some (Reading (ObjVal (acc @ [(k, v)]) # st))"
      if "(k, v) \<in> set kvs" for k v acc
      using JObject.IH [OF that, of v "ObjColon acc k # st"] JObject.prems(1) that
      by (auto simp: list_all_iff)
    have first: "run (Reading (ObjOpen # st)) (?g kv) = Some (Reading (ObjVal [kv] # st))"
      if "kv \<in> set kvs" for kv
      using val [of "fst kv" "snd kv" "[]"] that by simp
    have item: "run (Reading (ObjSep acc # st)) (?g kv) = Some (Reading (ObjVal (acc @ [kv]) # st))"
      if "kv \<in> set kvs" for kv acc
      using val [of "fst kv" "snd kv" acc] that by simp
    have comma: "step (Reading (ObjVal acc # st)) Comma = Some (Reading (ObjSep acc # st))" for acc
      by simp
    from False obtain x xs' where xs: "kvs = x # xs'" by (cases kvs) auto
    have elems: "run (Reading (ObjOpen # st)) (separated [Comma] (map ?g kvs)) =
                   Some (Reading (ObjVal kvs # st))"
    proof (cases "xs' = []")
      case True
      with first [of x] xs show ?thesis by simp
    next
      case False
      then obtain y ys where xs': "xs' = y # ys" by (cases xs') auto
      have "run (Reading (ObjOpen # st)) (separated [Comma] (map ?g kvs)) =
            run (Reading (ObjOpen # st)) (?g x @ Comma # separated [Comma] (map ?g xs'))"
        by (simp add: xs xs')
      also have "\<dots> = run (Reading (ObjSep [x] # st)) (separated [Comma] (map ?g xs'))"
        using first [of x] xs run_append [of "Reading (ObjOpen # st)" "?g x"]
        by simp
      also have "\<dots> = Some (Reading (ObjVal ([x] @ xs') # st))"
        by (rule run_separated [OF False _ comma], rule item) (simp add: xs)
      finally show ?thesis by (simp add: xs)
    qed
    have "run (Reading st) (tokens (JObject kvs)) =
          run (Reading (ObjOpen # st)) (separated [Comma] (map ?g kvs) @ [RBrace])"
      using JObject.prems(2) by simp
    also have "\<dots> = run (Reading (ObjVal kvs # st)) [RBrace]"
      using elems by (simp add: run_append)
    also have "\<dots> = push (JObject kvs) st"
      by (simp split: option.splits)
    finally show ?thesis .
  qed
next
  case JUnsupported
  then show ?case by simp
qed

lemma parse_tokens_tokens: "supported v \<Longrightarrow> parse_tokens (tokens v) = Some v"
  by (simp add: parse_tokens_def run_tokens)

text \<open>Reading an encoding, in any layout of spaces, gives the value back.\<close>

lemma parse_json_render:
  assumes "space_layout L" and "supported v"
  shows "lexm Outside (render L n v) = Some (tokens v)"
    and "parse_json (render L n v) = Some v"
proof -
  from lexm_render [OF assms, of "[]" n]
  show "lexm Outside (render L n v) = Some (tokens v)"
    by (simp add: delimited_def prepend_def)
  with parse_tokens_tokens [OF assms(2)] show "parse_json (render L n v) = Some v"
    by (simp add: parse_json_def)
qed

lemma space_layouts:
  shows "space_layout compact_layout" and "space_layout (indent_layout [] ''  '')"
proof -
  show "space_layout compact_layout"
    by (simp add: space_layout_def compact_layout_def)
  have "list_all is_space (concat (replicate n ''  ''))" for n
    by (induction n) (simp_all add: is_space_def)
  then show "space_layout (indent_layout [] ''  '')"
    by (simp add: space_layout_def indent_layout_def newline_indent_def is_space_def)
qed

text \<open>
  C5. With the modelled encoders, when a field map serializes under both settings of
  the pretty-print flag, the two texts differ in the spaces between their tokens only:
  the lexer reads the same tokens from both, and the reader gives back the same field
  map from both, which is the field map that was serialized, with the same keys and the
  same values.
\<close>

theorem prettyprint_changes_only_whitespace:
  assumes "json_Marshal e = Marshal" and "json_MarshalIndent e = MarshalIndent"
    and "GetBool vp ''prettyprint''" and "\<not> GetBool vc ''prettyprint''"
    and "jsonString e vp d = Inr p" and "jsonString e vc d = Inr c"
  shows "lexm Outside p = lexm Outside c
       \<and> parse_json p = parse_json c
       \<and> parse_json c = Some (JObject d)"
proof -
  from assms(2,3,5) have sp: "supported (JObject d)"
    and p: "p = render (indent_layout [] ''  '') 0 (JObject d)"
    by (auto simp: jsonString_def MarshalIndent_def split: if_splits)
  from assms(1,4,6) have c: "c = render compact_layout 0 (JObject d)"
    by (auto simp: jsonString_def Marshal_def split: if_splits)
  from parse_json_render [OF space_layouts(2) sp, of 0] parse_json_render [OF space_layouts(1) sp, of 0]
  show ?thesis
    unfolding p c by simp
qed

text \<open>The sample document, written on one line and indented, reads back as itself.\<close>

theorem prettyprint_changes_only_whitespace_witness:
  "jsonString json_env pretty_viper sample_document
     = Inr (render (indent_layout [] ''  '') 0 (JObject sample_document))
   \<and> jsonString json_env sample_viper sample_document
     = Inr (render compact_layout 0 (JObject sample_document))
   \<and> parse_json (render (indent_layout [] ''  '') 0 (JObject sample_document))
     = Some (JObject sample_document)
   \<and> parse_json (render compact_layout 0 (JObject sample_document))
     = Some (JObject sample_document)"
proof -
  have 1: "json_Marshal json_env = Marshal" and 2: "json_MarshalIndent json_env = MarshalIndent"
    by (simp_all add: json_env_def)
  have 3: "GetBool pretty_viper ''prettyprint''" and 4: "\<not> GetBool sample_viper ''prettyprint''"
    by (simp_all add: pretty_viper_def sample_defs)
  have s: "supported (JObject sample_document)"
    by (simp add: sample_document_def)
  have 5: "jsonString json_env pretty_viper sample_document
     = Inr (render (indent_layout [] ''  '') 0 (JObject sample_document))"
    using 2 3 s by (simp add: jsonString_def MarshalIndent_def)
  have 6: "jsonString json_env sample_viper sample_document
     = Inr (render compact_layout 0 (JObject sample_document))"
    using 1 4 s by (simp add: jsonString_def Marshal_def)
  from prettyprint_changes_only_whitespace [OF 1 2 3 4 5 6] 5 6 show ?thesis
    by simp
qed

end
